theory Spec2Isabelle
  imports Main
begin

section \<open>The platform: a POSIX file system seen through Python's \<open>os\<close> module\<close>

text \<open>
  The command in \<^verbatim>\<open>structure.py\<close> only talks to the file system
  (\<^verbatim>\<open>os.getcwd\<close>, \<^verbatim>\<open>os.path.join\<close>, \<^verbatim>\<open>os.path.exists\<close>,
  \<^verbatim>\<open>os.remove\<close>, \<^verbatim>\<open>os.makedirs\<close>, \<^verbatim>\<open>open(..., "w")\<close>) and to
  the console (\<^verbatim>\<open>self.stdout.write\<close>). The file system is a map from canonical
  paths (the list of names from the root) to entries. Path strings are what the
  program handles; every system call resolves its string against the file system,
  component by component, the way the kernel does. There are no symbolic links, no
  permissions and no other process: the only failures are the ones the tree itself
  causes, and each is a Python exception.
\<close>

type_synonym path = "string list"

datatype entry = Dir | File string

type_synonym filesystem = "path \<Rightarrow> entry option"

datatype os_error =
  FileNotFoundError | FileExistsError | NotADirectoryError | IsADirectoryError

datatype outcome = Returned | Raised os_error

datatype style = ERROR | WARNING | SUCCESS

record world =
  files :: filesystem
  cwd :: path
  stdout :: "(style \<times> string) list"

text \<open>\<^verbatim>\<open>s.split("/")\<close>: the components of a path string, empty ones included.\<close>

fun components :: "string \<Rightarrow> string list" where
  "components [] = [[]]"
| "components (c # cs) =
     (if c = CHR ''/'' then [] # components cs
      else (case components cs of [] \<Rightarrow> [[c]] | x # xs \<Rightarrow> (c # x) # xs))"

text \<open>
  Path resolution. Every component is looked up in a directory, so the place the walk
  stands on must be an existing directory before the next component is taken
  (\<^verbatim>\<open>ENOENT\<close>, \<^verbatim>\<open>ENOTDIR\<close> otherwise). An empty component and \<^verbatim>\<open>.\<close> stay,
  \<^verbatim>\<open>..\<close> goes to the parent (the root is its own parent). The result is the canonical
  path of the last component, which need not exist.
\<close>

fun walk :: "filesystem \<Rightarrow> path \<Rightarrow> string list \<Rightarrow> os_error + path" where
  "walk fs cur [] = Inr cur"
| "walk fs cur (c # cs) =
     (case fs cur of
        None \<Rightarrow> Inl FileNotFoundError
      | Some (File _) \<Rightarrow> Inl NotADirectoryError
      | Some Dir \<Rightarrow>
          (if c = [] \<or> c = ''.'' then walk fs cur cs
           else if c = ''..'' then walk fs (butlast cur) cs
           else walk fs (cur @ [c]) cs))"

definition start :: "world \<Rightarrow> string \<Rightarrow> path" where
  "start w s = (if hd s = CHR ''/'' then [] else cwd w)"

definition resolve :: "world \<Rightarrow> string \<Rightarrow> os_error + path" where
  "resolve w s =
     (if s = [] then Inl FileNotFoundError
      else walk (files w) (start w s) (components s))"

text \<open>The directory a new entry is created in: all components but the last.\<close>

definition resolve_parent :: "world \<Rightarrow> string \<Rightarrow> os_error + path" where
  "resolve_parent w s =
     (case walk (files w) (start w s) (butlast (components s)) of
        Inl e \<Rightarrow> Inl e
      | Inr p \<Rightarrow>
          (case files w p of
             None \<Rightarrow> Inl FileNotFoundError
           | Some (File _) \<Rightarrow> Inl NotADirectoryError
           | Some Dir \<Rightarrow> Inr p))"

definition lookup :: "world \<Rightarrow> string \<Rightarrow> os_error + path \<times> entry" where
  "lookup w s =
     (case resolve w s of
        Inl e \<Rightarrow> Inl e
      | Inr p \<Rightarrow>
          (case files w p of
             None \<Rightarrow> Inl FileNotFoundError
           | Some e \<Rightarrow> Inr (p, e)))"

text \<open>
  \<^verbatim>\<open>os.getcwd()\<close>: the absolute path of the working directory;
  \<^verbatim>\<open>FileNotFoundError\<close> when that directory is gone.
\<close>

fun render :: "path \<Rightarrow> string" where
  "render [] = ''/''"
| "render [x] = CHR ''/'' # x"
| "render (x # xs) = CHR ''/'' # x @ render xs"

definition os_getcwd :: "world \<Rightarrow> os_error + string" where
  "os_getcwd w =
     (if files w (cwd w) = Some Dir then Inr (render (cwd w))
      else Inl FileNotFoundError)"

text \<open>
  \<^verbatim>\<open>posixpath.join(a, *p)\<close>:
  \<^verbatim>\<open>
  path = a
  for b in p:
      if b.startswith(sep):                 path = b
      elif not path or path.endswith(sep):  path += b
      else:                                 path += sep + b
  return path
  \<close>
\<close>

definition join2 :: "string \<Rightarrow> string \<Rightarrow> string" where
  "join2 path b =
     (if b \<noteq> [] \<and> hd b = CHR ''/'' then b
      else if path = [] \<or> last path = CHR ''/'' then path @ b
      else path @ CHR ''/'' # b)"

definition os_path_join :: "string \<Rightarrow> string list \<Rightarrow> string" where
  "os_path_join a p = foldl join2 a p"

text \<open>\<^verbatim>\<open>os.path.exists\<close>: \<^verbatim>\<open>os.stat\<close> succeeds; any \<^verbatim>\<open>OSError\<close> gives False.\<close>

definition os_path_exists :: "string \<Rightarrow> world \<Rightarrow> bool" where
  "os_path_exists s w = (case lookup w s of Inl _ \<Rightarrow> False | Inr _ \<Rightarrow> True)"

text \<open>\<^verbatim>\<open>os.remove\<close> (\<^verbatim>\<open>unlink\<close>): deletes a file, refuses a directory.\<close>

definition os_remove :: "string \<Rightarrow> world \<Rightarrow> outcome \<times> world" where
  "os_remove s w =
     (case lookup w s of
        Inl e \<Rightarrow> (Raised e, w)
      | Inr (p, Dir) \<Rightarrow> (Raised IsADirectoryError, w)
      | Inr (p, File _) \<Rightarrow> (Returned, w\<lparr>files := (files w)(p := None)\<rparr>))"

text \<open>\<^verbatim>\<open>s.rstrip("/")\<close>.\<close>

definition rstrip_sep :: "string \<Rightarrow> string" where
  "rstrip_sep s = rev (dropWhile (\<lambda>c. c = CHR ''/'') (rev s))"

text \<open>
  \<^verbatim>\<open>os.mkdir\<close>: one new directory in an existing one. Trailing separators are
  ignored; the root, \<^verbatim>\<open>.\<close>, \<^verbatim>\<open>..\<close> and any existing entry give
  \<^verbatim>\<open>FileExistsError\<close>.
\<close>

definition os_mkdir :: "string \<Rightarrow> world \<Rightarrow> outcome \<times> world" where
  "os_mkdir s w =
     (let t = rstrip_sep s in
      if s = [] then (Raised FileNotFoundError, w)
      else if t = [] then (Raised FileExistsError, w)
      else
        (case resolve_parent w t of
           Inl e \<Rightarrow> (Raised e, w)
         | Inr p \<Rightarrow>
             (let n = last (components t) in
              if n = ''.'' \<or> n = ''..'' \<or> files w (p @ [n]) \<noteq> None
              then (Raised FileExistsError, w)
              else (Returned, w\<lparr>files := (files w)(p @ [n] \<mapsto> Dir)\<rparr>))))"

text \<open>
  \<^verbatim>\<open>with open(s, "w"): pass\<close>: the file is created, or truncated when it is
  there, and closed at once; a directory cannot be opened for writing.
\<close>

definition open_w :: "string \<Rightarrow> world \<Rightarrow> outcome \<times> world" where
  "open_w s w =
     (if s = [] then (Raised FileNotFoundError, w)
      else
        (case resolve_parent w s of
           Inl e \<Rightarrow> (Raised e, w)
         | Inr p \<Rightarrow>
             (let n = last (components s) in
              if n = [] \<or> n = ''.'' \<or> n = ''..'' then (Raised IsADirectoryError, w)
              else
                (case files w (p @ [n]) of
                   Some Dir \<Rightarrow> (Raised IsADirectoryError, w)
                 | _ \<Rightarrow> (Returned, w\<lparr>files := (files w)(p @ [n] \<mapsto> File [])\<rparr>)))))"

text \<open>
  \<^verbatim>\<open>posixpath.split(p)\<close>:
  \<^verbatim>\<open>
  i = p.rfind(sep) + 1
  head, tail = p[:i], p[i:]
  if head and head != sep*len(head):
      head = head.rstrip(sep)
  return head, tail
  \<close>
\<close>

definition path_split :: "string \<Rightarrow> string \<times> string" where
  "path_split p =
     (let tail = rev (takeWhile (\<lambda>c. c \<noteq> CHR ''/'') (rev p));
          head = take (length p - length tail) p
      in (if head \<noteq> [] \<and> head \<noteq> replicate (length head) (CHR ''/'')
          then rstrip_sep head else head, tail))"

text \<open>
  \<^verbatim>\<open>os.makedirs(name)\<close> with \<^verbatim>\<open>exist_ok=False\<close>:
  \<^verbatim>\<open>
  head, tail = path.split(name)
  if not tail:
      head, tail = path.split(head)
  if head and tail and not path.exists(head):
      try:
          makedirs(head, exist_ok=exist_ok)
      except FileExistsError:
          pass
      if tail == curdir:
          return
  mkdir(name, mode)
  \<close>
\<close>

definition makedirs_split :: "string \<Rightarrow> string \<times> string" where
  "makedirs_split name =
     (let (head, tail) = path_split name
      in if tail = [] then path_split head else (head, tail))"

lemma length_rstrip_sep: "length (rstrip_sep s) \<le> length s"
  unfolding rstrip_sep_def
  by (metis length_dropWhile_le length_rev)

lemma path_split_shorter:
  "length (fst (path_split p)) + length (snd (path_split p)) \<le> length p"
proof -
  let ?tail = "rev (takeWhile (\<lambda>c. c \<noteq> CHR ''/'') (rev p))"
  let ?head = "take (length p - length ?tail) p"
  have t: "length ?tail \<le> length p"
    by (metis length_rev length_takeWhile_le)
  have h: "length ?head = length p - length ?tail" by simp
  have "length (fst (path_split p)) \<le> length ?head"
    using length_rstrip_sep [of ?head] by (simp add: path_split_def Let_def)
  moreover have "snd (path_split p) = ?tail"
    by (simp add: path_split_def Let_def)
  ultimately show ?thesis using t h by simp
qed

lemma makedirs_split_shorter:
  assumes "makedirs_split name = (head, tail)" and "tail \<noteq> []"
  shows "length head < length name"
proof -
  obtain h0 t0 where s0: "path_split name = (h0, t0)"
    by (cases "path_split name")
  have l0: "length h0 + length t0 \<le> length name"
    using path_split_shorter [of name] s0 by simp
  show ?thesis
  proof (cases "t0 = []")
    case True
    with s0 assms(1) have "path_split h0 = (head, tail)"
      by (simp add: makedirs_split_def)
    then have "length head + length tail \<le> length h0"
      using path_split_shorter [of h0] by simp
    with l0 assms(2) show ?thesis by (cases tail) auto
  next
    case False
    with s0 assms(1) have "h0 = head" "t0 = tail"
      by (simp_all add: makedirs_split_def)
    with l0 assms(2) show ?thesis by (cases tail) auto
  qed
qed

function os_makedirs :: "string \<Rightarrow> world \<Rightarrow> outcome \<times> world" where
  "os_makedirs name w =
     (case makedirs_split name of
        (head, tail) \<Rightarrow>
          if head \<noteq> [] \<and> tail \<noteq> [] \<and> \<not> os_path_exists head w then
            (case os_makedirs head w of
               (Raised e, w') \<Rightarrow>
                 if e = FileExistsError
                 then (if tail = ''.'' then (Returned, w') else os_mkdir name w')
                 else (Raised e, w')
             | (Returned, w') \<Rightarrow>
                 if tail = ''.'' then (Returned, w') else os_mkdir name w')
          else os_mkdir name w)"
  by pat_completeness auto
termination
  by (relation "measure (\<lambda>(name, w). length name)")
     (auto dest: makedirs_split_shorter [OF sym])

section \<open>The command\<close>

definition stdout_write :: "style \<times> string \<Rightarrow> world \<Rightarrow> outcome \<times> world" where
  "stdout_write m w = (Returned, w\<lparr>stdout := stdout w @ [m]\<rparr>)"

text \<open>Statement sequencing: an exception ends the run with the state as it is.\<close>

definition and_then ::
  "(world \<Rightarrow> outcome \<times> world) \<Rightarrow> (world \<Rightarrow> outcome \<times> world) \<Rightarrow> world \<Rightarrow> outcome \<times> world"
where
  "and_then f g w =
     (case f w of (Returned, w') \<Rightarrow> g w' | (Raised e, w') \<Rightarrow> (Raised e, w'))"

definition create_folder_with_init :: "string \<Rightarrow> world \<Rightarrow> outcome \<times> world" where
  "create_folder_with_init path w =
     (if \<not> os_path_exists path w then
        and_then (os_makedirs path)
          (and_then (open_w (os_path_join path [''__init__.py'']))
             (stdout_write (SUCCESS, ''Created '' @ path))) w
      else (Returned, w))"

definition default_files :: "string list" where
  "default_files = [''models.py'', ''admin.py'', ''tests.py'', ''views.py'']"

fun remove_each :: "string \<Rightarrow> string list \<Rightarrow> world \<Rightarrow> outcome \<times> world" where
  "remove_each base_dir [] w = (Returned, w)"
| "remove_each base_dir (filename # rest) w =
     (let file_path = os_path_join base_dir [filename] in
      and_then
        (\<lambda>w. if os_path_exists file_path w
              then and_then (os_remove file_path)
                     (stdout_write (WARNING, ''Removed '' @ file_path)) w
              else (Returned, w))
        (remove_each base_dir rest) w)"

definition remove_default_files :: "string \<Rightarrow> world \<Rightarrow> outcome \<times> world" where
  "remove_default_files base_dir = remove_each base_dir default_files"

fun create_subfolders :: "string \<Rightarrow> string list \<Rightarrow> world \<Rightarrow> outcome \<times> world" where
  "create_subfolders folder_path [] w = (Returned, w)"
| "create_subfolders folder_path (subfolder # rest) w =
     and_then (create_folder_with_init (os_path_join folder_path [subfolder]))
       (create_subfolders folder_path rest) w"

fun create_folder_structure ::
  "string \<Rightarrow> (string \<times> string list) list \<Rightarrow> world \<Rightarrow> outcome \<times> world"
where
  "create_folder_structure base_dir [] w = (Returned, w)"
| "create_folder_structure base_dir ((folder, subfolders) # rest) w =
     (let folder_path = os_path_join base_dir [folder] in
      and_then (create_folder_with_init folder_path)
        (and_then (create_subfolders folder_path subfolders)
           (create_folder_structure base_dir rest)) w)"

definition structure_table :: "(string \<times> string list) list" where
  "structure_table =
     [(''admin'', []),
      (''api'', [''exceptions'', ''filters'', ''orderings'', ''paginations'',
                 ''permissions'', ''schema'', ''routers'', ''serializers'',
                 ''throttlings'', ''views'']),
      (''models'', [''helper'']),
      (''repository'', [''manager'', ''queryset'']),
      (''signals'', []),
      (''tests'', [''models'', ''api'', ''admin'']),
      (''validators'', [])]"

definition quoted :: "string \<Rightarrow> string" where
  "quoted s = CHR 0x27 # s @ [CHR 0x27]"

definition handle :: "string \<Rightarrow> world \<Rightarrow> outcome \<times> world" where
  "handle app_name w =
     (case os_getcwd w of
        Inl e \<Rightarrow> (Raised e, w)
      | Inr c \<Rightarrow>
          (let base_dir = os_path_join c [app_name] in
           if \<not> os_path_exists base_dir w then
             stdout_write (ERROR, ''App '' @ quoted app_name @ '' does not exist'') w
           else
             and_then (remove_default_files base_dir)
               (and_then (create_folder_structure base_dir structure_table)
                  (and_then
                     (create_folder_with_init
                        (os_path_join base_dir [''models'', ''helper'', ''enums'']))
                     (stdout_write
                        (SUCCESS, ''Structure created for app '' @ quoted app_name)))) w))"

text \<open>The target directory of a run, as \<^verbatim>\<open>handle\<close> computes it.\<close>

definition base_dir :: "world \<Rightarrow> string \<Rightarrow> string" where
  "base_dir w app_name = os_path_join (render (cwd w)) [app_name]"

section \<open>Paths: joining and resolving\<close>

definition plain :: "string \<Rightarrow> bool" where
  "plain n \<longleftrightarrow> n \<noteq> [] \<and> CHR ''/'' \<notin> set n \<and> n \<noteq> ''.'' \<and> n \<noteq> ''..''"

definition tree :: "filesystem \<Rightarrow> bool" where
  "tree fs \<longleftrightarrow> (\<forall>p n. fs (p @ [n]) \<noteq> None \<longrightarrow> fs p = Some Dir)"

definition directory :: "filesystem \<Rightarrow> path \<Rightarrow> os_error + path" where
  "directory fs p =
     (case fs p of
        None \<Rightarrow> Inl FileNotFoundError
      | Some (File _) \<Rightarrow> Inl NotADirectoryError
      | Some Dir \<Rightarrow> Inr p)"

definition resolve_dir :: "world \<Rightarrow> string \<Rightarrow> os_error + path" where
  "resolve_dir w s =
     (case resolve w s of Inl e \<Rightarrow> Inl e | Inr p \<Rightarrow> directory (files w) p)"

lemma components_ne [simp]: "components s \<noteq> []"
  by (induction s) (auto split: list.splits)

lemma components_nosep: "CHR ''/'' \<notin> set n \<Longrightarrow> components n = [n]"
  by (induction n) auto

lemma components_sep: "components (a @ CHR ''/'' # b) = components a @ components b"
proof (induction a)
  case Nil
  show ?case by simp
next
  case (Cons c a)
  obtain x xs where "components a = x # xs"
    using components_ne [of a] by (cases "components a") auto
  with Cons show ?case by simp
qed

lemma walk_append:
  "walk fs cur (xs @ ys) =
     (case walk fs cur xs of Inl e \<Rightarrow> Inl e | Inr p \<Rightarrow> walk fs p ys)"
  by (induction xs arbitrary: cur) (auto simp: walk.simps(2) split: option.splits entry.splits)

lemma walk_empty_component: "walk fs p [[]] = directory fs p"
  by (simp add: walk.simps(2) directory_def split: option.splits entry.splits)

lemma walk_plain: "plain n \<Longrightarrow>
  walk fs p [n] = (case directory fs p of Inl e \<Rightarrow> Inl e | Inr q \<Rightarrow> Inr (q @ [n]))"
  by (auto simp: walk.simps(2) directory_def plain_def split: option.splits entry.splits)

declare walk.simps(2) [simp del]

lemma join2_plain:
  "plain n \<Longrightarrow> s \<noteq> [] \<Longrightarrow>
   join2 s n = (if last s = CHR ''/'' then s @ n else s @ CHR ''/'' # n)"
  by (cases n) (auto simp: join2_def plain_def)

lemma join2_plain_props:
  assumes "plain n" "s \<noteq> []"
  shows "join2 s n \<noteq> []" and "hd (join2 s n) = hd s" and "last (join2 s n) \<noteq> CHR ''/''"
    and "start w (join2 s n) = start w s"
proof -
  have "n \<noteq> []" "CHR ''/'' \<notin> set n" using assms(1) by (simp_all add: plain_def)
  then have "last n \<noteq> CHR ''/''" by (metis last_in_set)
  then show "last (join2 s n) \<noteq> CHR ''/''"
    using assms by (auto simp: join2_plain plain_def)
qed (use assms in \<open>auto simp: join2_plain start_def plain_def\<close>)

definition walk_dir :: "filesystem \<Rightarrow> path \<Rightarrow> string list \<Rightarrow> os_error + path" where
  "walk_dir fs cur cs =
     (case walk fs cur cs of Inl e \<Rightarrow> Inl e | Inr p \<Rightarrow> directory fs p)"

lemma walk_snoc_empty: "walk fs cur (cs @ [[]]) = walk_dir fs cur cs"
  by (simp add: walk_append walk_dir_def walk_empty_component split: sum.splits)

lemma walk_snoc_plain:
  "plain n \<Longrightarrow> walk fs cur (cs @ [n]) =
     (case walk_dir fs cur cs of Inl e \<Rightarrow> Inl e | Inr q \<Rightarrow> Inr (q @ [n]))"
  by (simp add: walk_append walk_dir_def walk_plain split: sum.splits)

lemma directory_idem:
  "(case directory fs p of Inl e \<Rightarrow> Inl e | Inr q \<Rightarrow> directory fs q) = directory fs p"
  by (simp add: directory_def split: option.splits entry.splits)

lemma walk_dir_snoc_empty: "walk_dir fs cur (cs @ [[]]) = walk_dir fs cur cs"
  unfolding walk_dir_def walk_append walk_empty_component
  by (cases "walk fs cur cs") (simp_all add: directory_idem)

lemma resolve_dir_walk:
  "s \<noteq> [] \<Longrightarrow> resolve_dir w s = walk_dir (files w) (start w s) (components s)"
  by (simp add: resolve_dir_def resolve_def walk_dir_def)

lemma resolve_parent_walk:
  "resolve_parent w s = walk_dir (files w) (start w s) (butlast (components s))"
  by (simp add: resolve_parent_def walk_dir_def directory_def split: sum.splits)

lemma components_join2:
  assumes "plain n" "s \<noteq> []"
  shows "\<exists>cs. components (join2 s n) = cs @ [n] \<and>
           (\<forall>fs cur. walk_dir fs cur cs = walk_dir fs cur (components s))"
proof (cases "last s = CHR ''/''")
  case False
  have "components (join2 s n) = components s @ [n]"
    using assms False by (simp add: join2_plain components_sep components_nosep plain_def)
  then show ?thesis by blast
next
  case True
  then obtain s' where s: "s = s' @ ''/''"
    using assms(2) by (metis append_butlast_last_id)
  have 1: "components (join2 s n) = components s' @ [n]"
    using assms True s by (simp add: join2_plain components_sep components_nosep plain_def)
  have 2: "components s = components s' @ [[]]"
    using s by (simp add: components_sep)
  show ?thesis using 1 by (auto simp: 2 walk_dir_snoc_empty)
qed

lemma resolve_parent_join2:
  assumes "plain n" "s \<noteq> []"
  shows "resolve_parent w (join2 s n) = resolve_dir w s"
    and "last (components (join2 s n)) = n"
    and "resolve w (join2 s n) =
           (case resolve_dir w s of Inl e \<Rightarrow> Inl e | Inr p \<Rightarrow> Inr (p @ [n]))"
proof -
  obtain cs where cs: "components (join2 s n) = cs @ [n]"
    and eq: "\<And>fs cur. walk_dir fs cur cs = walk_dir fs cur (components s)"
    using components_join2 [OF assms] by blast
  have st: "start w (join2 s n) = start w s" using assms by (rule join2_plain_props)
  show "resolve_parent w (join2 s n) = resolve_dir w s"
    by (simp add: resolve_parent_walk resolve_dir_walk assms(2) cs st eq)
  show "last (components (join2 s n)) = n" by (simp add: cs)
  have "resolve w (join2 s n) = walk (files w) (start w s) (cs @ [n])"
    using join2_plain_props(1) [OF assms] by (simp add: resolve_def cs st)
  then show "resolve w (join2 s n) =
           (case resolve_dir w s of Inl e \<Rightarrow> Inl e | Inr p \<Rightarrow> Inr (p @ [n]))"
    by (simp add: walk_snoc_plain assms resolve_dir_walk eq)
qed

lemma rstrip_decomp: "\<exists>k. s = rstrip_sep s @ replicate k (CHR ''/'')"
proof -
  let ?P = "\<lambda>c. c = CHR ''/''"
  have "rev s = takeWhile ?P (rev s) @ dropWhile ?P (rev s)" by simp
  then have "s = rev (dropWhile ?P (rev s)) @ rev (takeWhile ?P (rev s))"
    by (metis rev_append rev_rev_ident)
  moreover have "\<forall>y\<in>set (rev (takeWhile ?P (rev s))). y = CHR ''/''"
    by (auto dest: set_takeWhileD)
  then have "replicate (length (rev (takeWhile ?P (rev s)))) (CHR ''/'') = rev (takeWhile ?P (rev s))"
    by (rule replicate_length_same)
  ultimately show ?thesis unfolding rstrip_sep_def by metis
qed

lemma rstrip_noslash: "s = [] \<or> last s \<noteq> CHR ''/'' \<Longrightarrow> rstrip_sep s = s"
  by (cases s rule: rev_cases) (auto simp: rstrip_sep_def)

lemma rstrip_snoc_sep: "rstrip_sep (s @ ''/'') = rstrip_sep s"
  by (simp add: rstrip_sep_def)

lemma rstrip_nil: "rstrip_sep s = [] \<Longrightarrow> s = replicate (length s) (CHR ''/'')"
  using rstrip_decomp [of s] by auto

lemma components_slashes:
  "components (t @ replicate k (CHR ''/'')) = components t @ replicate k []"
proof (induction k arbitrary: t)
  case 0
  show ?case by simp
next
  case (Suc k)
  have "components (t @ replicate (Suc k) (CHR ''/'')) = components ((t @ ''/'') @ replicate k (CHR ''/''))"
    by simp
  also have "\<dots> = components (t @ ''/'') @ replicate k []" by (rule Suc.IH)
  also have "\<dots> = components t @ replicate (Suc k) []"
    by (simp add: components_sep replicate_append_same)
  finally show ?case .
qed

lemma walk_trailing:
  "walk fs cur (cs @ replicate k []) = Inr q \<Longrightarrow> walk fs cur cs = Inr q"
proof (induction k arbitrary: q)
  case 0
  then show ?case by simp
next
  case (Suc k)
  have "cs @ replicate (Suc k) [] = (cs @ replicate k []) @ [[]]"
    by (simp add: replicate_append_same)
  with Suc.prems have "walk fs cur ((cs @ replicate k []) @ [[]]) = Inr q"
    by metis
  then have "walk_dir fs cur (cs @ replicate k []) = Inr q"
    by (simp only: walk_snoc_empty)
  then have "walk fs cur (cs @ replicate k []) = Inr q"
    by (auto simp: walk_dir_def directory_def split: sum.splits option.splits entry.splits)
  then show ?case by (rule Suc.IH)
qed

definition head_of :: "string \<Rightarrow> string" where
  "head_of s = (if s = replicate (length s) (CHR ''/'') then s else rstrip_sep s)"

lemma head_of_noslash: "s \<noteq> [] \<Longrightarrow> last s \<noteq> CHR ''/'' \<Longrightarrow> head_of s = s"
  by (simp add: head_of_def rstrip_noslash)

lemma head_of_ne: "s \<noteq> [] \<Longrightarrow> head_of s \<noteq> []"
  using rstrip_nil [of s] by (auto simp: head_of_def)

lemma resolve_head_of:
  assumes "resolve w s = Inr q"
  shows "resolve w (head_of s) = Inr q"
proof (cases "s = replicate (length s) (CHR ''/'')")
  case True
  then show ?thesis using assms by (simp add: head_of_def)
next
  case False
  obtain k where k: "s = rstrip_sep s @ replicate k (CHR ''/'')"
    using rstrip_decomp by blast
  let ?t = "rstrip_sep s"
  have t: "?t \<noteq> []" using False rstrip_nil by blast
  have s: "s \<noteq> []" using assms by (auto simp: resolve_def)
  have "hd s = hd ?t" using k t by (metis hd_append2)
  then have st: "start w ?t = start w s" by (simp add: start_def)
  have "components s = components ?t @ replicate k []"
    using components_slashes [of ?t k] k by simp
  with assms s have "walk (files w) (start w s) (components ?t @ replicate k []) = Inr q"
    by (simp add: resolve_def)
  then have "walk (files w) (start w s) (components ?t) = Inr q"
    by (rule walk_trailing)
  then show ?thesis using False t by (simp add: head_of_def resolve_def st)
qed

lemma exists_head_of: "os_path_exists s w \<Longrightarrow> os_path_exists (head_of s) w"
  by (auto simp: os_path_exists_def lookup_def resolve_head_of split: sum.splits option.splits)

lemma takeWhile_until_sep:
  "CHR ''/'' \<notin> set xs \<Longrightarrow> takeWhile (\<lambda>c. c \<noteq> CHR ''/'') (xs @ CHR ''/'' # r) = xs"
  by (induction xs) auto

lemma path_split_join2:
  assumes "plain n" "s \<noteq> []"
  shows "path_split (join2 s n) = (head_of s, n)"
proof -
  let ?P = "\<lambda>c. c \<noteq> CHR ''/''"
  have n: "CHR ''/'' \<notin> set (rev n)" using assms(1) by (auto simp: plain_def)
  show ?thesis
  proof (cases "last s = CHR ''/''")
    case True
    then have j: "join2 s n = s @ n" using assms by (simp add: join2_plain)
    obtain s' where s': "s = s' @ ''/''"
      using True assms(2) by (metis append_butlast_last_id)
    have "takeWhile ?P (rev (s' @ ''/'' @ n)) = rev n"
      using takeWhile_until_sep [OF n, of "rev s'"] by simp
    then have "takeWhile ?P (rev (s @ n)) = rev n" by (simp add: s')
    then show ?thesis using assms(2)
      by (simp add: j path_split_def Let_def head_of_def)
  next
    case False
    then have j: "join2 s n = s @ CHR ''/'' # n" using assms by (simp add: join2_plain)
    have "takeWhile ?P (rev (s @ CHR ''/'' # n)) = rev n"
      using takeWhile_until_sep [OF n, of "rev s"] by simp
    moreover have "s @ ''/'' \<noteq> replicate (Suc (length s)) (CHR ''/'')"
    proof
      assume "s @ ''/'' = replicate (Suc (length s)) (CHR ''/'')"
      then have "s @ ''/'' = replicate (length s) (CHR ''/'') @ ''/''"
        by (simp add: replicate_append_same)
      then have "s = replicate (length s) (CHR ''/'')" by simp
      then have "last s = CHR ''/''" using assms(2) by (metis last_replicate length_0_conv)
      with False show False by simp
    qed
    ultimately show ?thesis using assms(2) False
      by (simp add: j path_split_def Let_def head_of_noslash rstrip_snoc_sep rstrip_noslash)
  qed
qed

section \<open>System calls on a path joined with a plain name\<close>

lemma exists_join2:
  "plain n \<Longrightarrow> s \<noteq> [] \<Longrightarrow>
   os_path_exists (join2 s n) w =
     (case resolve_dir w s of Inl e \<Rightarrow> False | Inr p \<Rightarrow> files w (p @ [n]) \<noteq> None)"
  by (simp add: os_path_exists_def lookup_def resolve_parent_join2
      split: sum.splits option.splits)

lemma remove_join2:
  "plain n \<Longrightarrow> s \<noteq> [] \<Longrightarrow>
   os_remove (join2 s n) w =
     (case resolve_dir w s of
        Inl e \<Rightarrow> (Raised e, w)
      | Inr p \<Rightarrow>
          (case files w (p @ [n]) of
             None \<Rightarrow> (Raised FileNotFoundError, w)
           | Some Dir \<Rightarrow> (Raised IsADirectoryError, w)
           | Some (File c) \<Rightarrow> (Returned, w\<lparr>files := (files w)(p @ [n] := None)\<rparr>)))"
  by (simp add: os_remove_def lookup_def resolve_parent_join2
      split: sum.splits option.splits entry.splits)

lemma mkdir_join2:
  assumes "plain n" "s \<noteq> []"
  shows "os_mkdir (join2 s n) w =
     (case resolve_dir w s of
        Inl e \<Rightarrow> (Raised e, w)
      | Inr p \<Rightarrow>
          if files w (p @ [n]) \<noteq> None then (Raised FileExistsError, w)
          else (Returned, w\<lparr>files := (files w)(p @ [n] \<mapsto> Dir)\<rparr>))"
proof -
  have "rstrip_sep (join2 s n) = join2 s n"
    using join2_plain_props(3) [OF assms] by (simp add: rstrip_noslash)
  then show ?thesis
    using assms join2_plain_props(1) [OF assms]
    by (auto simp: os_mkdir_def Let_def resolve_parent_join2 plain_def split: sum.splits)
qed

lemma open_w_join2:
  assumes "plain n" "s \<noteq> []"
  shows "open_w (join2 s n) w =
     (case resolve_dir w s of
        Inl e \<Rightarrow> (Raised e, w)
      | Inr p \<Rightarrow>
          (case files w (p @ [n]) of
             Some Dir \<Rightarrow> (Raised IsADirectoryError, w)
           | _ \<Rightarrow> (Returned, w\<lparr>files := (files w)(p @ [n] \<mapsto> File [])\<rparr>)))"
  using assms join2_plain_props(1) [OF assms]
  by (auto simp: open_w_def Let_def resolve_parent_join2 plain_def
      split: sum.splits option.splits entry.splits)

declare os_makedirs.simps [simp del]

lemma makedirs_join2:
  assumes "plain n" "os_path_exists s w"
  shows "os_makedirs (join2 s n) w = os_mkdir (join2 s n) w"
proof -
  have s: "s \<noteq> []" using assms(2)
    by (auto simp: os_path_exists_def lookup_def resolve_def)
  have "makedirs_split (join2 s n) = (head_of s, n)"
    using assms(1) s by (simp add: makedirs_split_def path_split_join2 plain_def)
  moreover have "os_path_exists (head_of s) w"
    using assms(2) by (rule exists_head_of)
  ultimately show ?thesis
    by (subst os_makedirs.simps) simp
qed

lemma resolve_dir_cases:
  "resolve w s = Inr p \<Longrightarrow> files w p = Some Dir \<Longrightarrow> resolve_dir w s = Inr p"
  "resolve w s = Inr p \<Longrightarrow> files w p = Some (File c) \<Longrightarrow> resolve_dir w s = Inl NotADirectoryError"
  "resolve w s = Inr p \<Longrightarrow> files w p = None \<Longrightarrow> resolve_dir w s = Inl FileNotFoundError"
  by (simp_all add: resolve_dir_def directory_def)

lemma exists_iff:
  "os_path_exists s w \<longleftrightarrow> (\<exists>p. resolve w s = Inr p \<and> files w p \<noteq> None)"
  by (auto simp: os_path_exists_def lookup_def split: sum.splits option.splits)

text \<open>Resolution only looks at directories: it survives any change that keeps them.\<close>

lemma walk_keeps:
  assumes "\<And>p. fs p = Some Dir \<Longrightarrow> fs' p = Some Dir"
  shows "walk fs cur cs = Inr q \<Longrightarrow> walk fs' cur cs = Inr q"
proof (induction cs arbitrary: cur)
  case Nil
  then show ?case by simp
next
  case (Cons c cs)
  from Cons.prems have d: "fs cur = Some Dir"
    by (auto simp: walk.simps(2) split: option.splits entry.splits)
  then have d': "fs' cur = Some Dir" by (rule assms)
  show ?case using Cons.prems Cons.IH d d'
    by (auto simp: walk.simps(2) split: if_splits)
qed

lemma resolve_keeps:
  assumes "\<And>p. files w p = Some Dir \<Longrightarrow> files w' p = Some Dir" "cwd w' = cwd w"
    and "resolve w s = Inr q"
  shows "resolve w' s = Inr q"
  using assms(3) walk_keeps [of "files w" "files w'", OF assms(1)] assms(2)
  by (auto simp: resolve_def start_def split: if_splits)

lemma plain_init [simp]: "plain ''__init__.py''"
  by (simp add: plain_def)

lemma create_folder_with_init_under_file:
  assumes n: "plain n" and r: "resolve w s = Inr P" and e: "files w P = Some (File c)"
  shows "create_folder_with_init (join2 s n) w = (Raised NotADirectoryError, w)"
proof -
  have s: "s \<noteq> []" using r by (auto simp: resolve_def)
  have ex: "os_path_exists s w" using r e by (auto simp: exists_iff)
  have "resolve_dir w s = Inl NotADirectoryError"
    using r e by (simp add: resolve_dir_cases)
  then show ?thesis using n s ex
    by (simp add: create_folder_with_init_def exists_join2 makedirs_join2 mkdir_join2
        and_then_def)
qed

lemma and_then_Returned: "f w = (Returned, w') \<Longrightarrow> and_then f g w = g w'"
  by (simp add: and_then_def)

lemma and_then_Raised: "f w = (Raised e, w') \<Longrightarrow> and_then f g w = (Raised e, w')"
  by (simp add: and_then_def)

lemma create_folder_with_init_in_dir:
  assumes t: "tree (files w)" and n: "plain n"
    and r: "resolve w s = Inr P" and e: "files w P = Some Dir"
  shows "create_folder_with_init (join2 s n) w =
     (if files w (P @ [n]) \<noteq> None then (Returned, w)
      else (Returned,
            w\<lparr>files := (files w)(P @ [n] \<mapsto> Dir, P @ [n, ''__init__.py''] \<mapsto> File []),
              stdout := stdout w @ [(SUCCESS, ''Created '' @ join2 s n)]\<rparr>))"
proof -
  have s: "s \<noteq> []" using r by (auto simp: resolve_def)
  have ex: "os_path_exists s w" using r e by (auto simp: exists_iff)
  have j: "join2 s n \<noteq> []" using n s by (rule join2_plain_props)
  have rd: "resolve_dir w s = Inr P" using r e by (simp add: resolve_dir_cases)
  have exj: "os_path_exists (join2 s n) w \<longleftrightarrow> files w (P @ [n]) \<noteq> None"
    using n s by (simp add: exists_join2 rd)
  show ?thesis
  proof (cases "files w (P @ [n]) = None")
    case False
    then show ?thesis using exj
      by (simp add: create_folder_with_init_def)
  next
    case True
    let ?w1 = "w\<lparr>files := (files w)(P @ [n] \<mapsto> Dir)\<rparr>"
    let ?w2 = "?w1\<lparr>files := (files ?w1)(P @ [n, ''__init__.py''] \<mapsto> File [])\<rparr>"
    have "os_mkdir (join2 s n) w = (Returned, ?w1)"
      using True n s by (simp add: mkdir_join2 rd)
    then have m: "os_makedirs (join2 s n) w = (Returned, ?w1)"
      using n ex by (simp only: makedirs_join2)
    have "resolve ?w1 s = Inr P"
    proof (rule resolve_keeps [OF _ _ r])
      show "files ?w1 p = Some Dir" if "files w p = Some Dir" for p
        using that True by auto
    qed simp
    moreover have "files ?w1 P = Some Dir" using e by simp
    ultimately have "resolve_dir ?w1 s = Inr P" by (rule resolve_dir_cases)
    then have "resolve ?w1 (join2 s n) = Inr (P @ [n])"
      using n s by (simp add: resolve_parent_join2)
    moreover have "files ?w1 (P @ [n]) = Some Dir" by simp
    ultimately have rd1: "resolve_dir ?w1 (join2 s n) = Inr (P @ [n])"
      by (rule resolve_dir_cases)
    have "files w ((P @ [n]) @ [''__init__.py'']) = None"
      using t True unfolding tree_def by (metis option.distinct(1))
    then have "files ?w1 ((P @ [n]) @ [''__init__.py'']) = None" by simp
    then have o: "open_w (join2 (join2 s n) ''__init__.py'') ?w1 = (Returned, ?w2)"
      using j by (simp add: open_w_join2 rd1)
    have "create_folder_with_init (join2 s n) w =
        and_then (os_makedirs (join2 s n))
          (and_then (open_w (join2 (join2 s n) ''__init__.py''))
             (stdout_write (SUCCESS, ''Created '' @ join2 s n))) w"
      using True exj by (simp add: create_folder_with_init_def os_path_join_def)
    also have "\<dots> = and_then (open_w (join2 (join2 s n) ''__init__.py''))
             (stdout_write (SUCCESS, ''Created '' @ join2 s n)) ?w1"
      using m by (rule and_then_Returned)
    also have "\<dots> = stdout_write (SUCCESS, ''Created '' @ join2 s n) ?w2"
      using o by (rule and_then_Returned)
    also have "\<dots> = (Returned,
            w\<lparr>files := (files w)(P @ [n] \<mapsto> Dir, P @ [n, ''__init__.py''] \<mapsto> File []),
              stdout := stdout w @ [(SUCCESS, ''Created '' @ join2 s n)]\<rparr>)"
      by (simp add: stdout_write_def)
    finally show ?thesis using True by simp
  qed
qed

section \<open>Example worlds\<close>

definition demo_world :: world where
  "demo_world =
     \<lparr>files = [[] \<mapsto> Dir, [''proj''] \<mapsto> Dir, [''proj'', ''myapp''] \<mapsto> Dir,
               [''proj'', ''manage.py''] \<mapsto> File ''#!''],
      cwd = [''proj''], stdout = []\<rparr>"

section \<open>The run as a whole\<close>

lemma handle_unfold:
  assumes "files w (cwd w) = Some Dir"
  shows "handle app_name w =
     (if \<not> os_path_exists (base_dir w app_name) w then
        stdout_write (ERROR, ''App '' @ quoted app_name @ '' does not exist'') w
      else
        and_then (remove_default_files (base_dir w app_name))
          (and_then (create_folder_structure (base_dir w app_name) structure_table)
             (and_then
                (create_folder_with_init
                   (os_path_join (base_dir w app_name) [''models'', ''helper'', ''enums'']))
                (stdout_write
                   (SUCCESS, ''Structure created for app '' @ quoted app_name)))) w)"
  using assms by (simp add: handle_def os_getcwd_def base_dir_def Let_def)

text \<open>
  Claim C2. When the target directory of the run does not exist (the check of
  \<^verbatim>\<open>handle\<close> fails for \<^verbatim>\<open>base_dir\<close>), the run changes nothing in the file system,
  writes exactly one message, the error naming the app, and returns normally: no
  exception is raised.
\<close>

theorem target_missing:
  assumes "files w (cwd w) = Some Dir"
    and "\<not> os_path_exists (base_dir w app_name) w"
  shows "handle app_name w =
    (Returned,
     w\<lparr>stdout := stdout w @ [(ERROR, ''App '' @ quoted app_name @ '' does not exist'')]\<rparr>)"
  using assms by (simp add: handle_unfold stdout_write_def)

lemma demo_missing: "\<not> os_path_exists (base_dir demo_world ''nope'') demo_world"
  by (simp add: demo_world_def base_dir_def os_path_join_def join2_def os_path_exists_def
      lookup_def resolve_def start_def walk.simps(2))

theorem target_missing_witness:
  "files demo_world (cwd demo_world) = Some Dir \<and>
   \<not> os_path_exists (base_dir demo_world ''nope'') demo_world \<and>
   handle ''nope'' demo_world =
     (Returned, demo_world\<lparr>stdout := [(ERROR, ''App '' @ quoted ''nope'' @ '' does not exist'')]\<rparr>)"
proof -
  have c: "files demo_world (cwd demo_world) = Some Dir" by (simp add: demo_world_def)
  show ?thesis
    using target_missing [OF c demo_missing] c demo_missing by (simp add: demo_world_def)
qed

lemma remove_each_under_file:
  assumes "resolve w b = Inr P" "files w P = Some (File c)" "\<forall>d\<in>set ds. plain d"
  shows "remove_each b ds w = (Returned, w)"
proof -
  have b: "b \<noteq> []" using assms(1) by (auto simp: resolve_def)
  have "resolve_dir w b = Inl NotADirectoryError"
    using assms by (simp add: resolve_dir_cases)
  then show ?thesis using assms(3) b
    by (induction ds) (simp_all add: Let_def os_path_join_def exists_join2 and_then_def)
qed

lemma plain_names [simp]:
  "plain ''models.py''" "plain ''admin.py''" "plain ''tests.py''" "plain ''views.py''"
  "plain ''admin''" "plain ''api''" "plain ''models''" "plain ''repository''"
  "plain ''signals''" "plain ''tests''" "plain ''validators''"
  "plain ''exceptions''" "plain ''filters''" "plain ''orderings''" "plain ''paginations''"
  "plain ''permissions''" "plain ''schema''" "plain ''routers''" "plain ''serializers''"
  "plain ''throttlings''" "plain ''views''" "plain ''helper''" "plain ''manager''"
  "plain ''queryset''" "plain ''enums''"
  by (simp_all add: plain_def)

lemma handle_file_target:
  assumes "files w (cwd w) = Some Dir"
    and "resolve w (base_dir w app_name) = Inr B"
    and "files w B = Some (File c)"
  shows "os_path_exists (base_dir w app_name) w \<and>
         handle app_name w = (Raised NotADirectoryError, w)"
proof -
  let ?b = "base_dir w app_name"
  have ex: "os_path_exists ?b w" using assms(2,3) by (auto simp: exists_iff)
  have rm: "remove_default_files ?b w = (Returned, w)"
    unfolding remove_default_files_def
    using assms(2,3) by (rule remove_each_under_file) (simp add: default_files_def)
  have "create_folder_with_init (join2 ?b ''admin'') w = (Raised NotADirectoryError, w)"
    using _ assms(2,3) by (rule create_folder_with_init_under_file) simp
  then have "create_folder_structure ?b structure_table w = (Raised NotADirectoryError, w)"
    by (simp add: structure_table_def os_path_join_def and_then_def)
  then show ?thesis using ex rm assms(1)
    by (simp add: handle_unfold and_then_def)
qed

text \<open>
  Claim C8. The existence check accepts any entry. When the target resolves to a
  regular file, the check passes and no "does not exist" message is written; the run
  goes on to the removal of the default files (none is found below a file) and to the
  first creation, where \<^verbatim>\<open>os.makedirs\<close> raises \<^verbatim>\<open>NotADirectoryError\<close>, uncaught.
\<close>

theorem target_is_file:
  assumes "files w (cwd w) = Some Dir"
    and "resolve w (base_dir w app_name) = Inr B"
    and "files w B = Some (File c)"
  shows "os_path_exists (base_dir w app_name) w \<and>
         handle app_name w = (Raised NotADirectoryError, w)"
  using assms by (rule handle_file_target)

definition file_world :: world where
  "file_world =
     \<lparr>files = [[] \<mapsto> Dir, [''proj''] \<mapsto> Dir, [''proj'', ''myapp''] \<mapsto> File ''x''],
      cwd = [''proj''], stdout = []\<rparr>"

theorem target_is_file_witness:
  "files file_world (cwd file_world) = Some Dir \<and>
   resolve file_world (base_dir file_world ''myapp'') = Inr [''proj'', ''myapp''] \<and>
   files file_world [''proj'', ''myapp''] = Some (File ''x'') \<and>
   os_path_exists (base_dir file_world ''myapp'') file_world \<and>
   handle ''myapp'' file_world = (Raised NotADirectoryError, file_world)"
proof -
  have c: "files file_world (cwd file_world) = Some Dir" by (simp add: file_world_def)
  have r: "resolve file_world (base_dir file_world ''myapp'') = Inr [''proj'', ''myapp'']"
    by (simp add: file_world_def base_dir_def os_path_join_def join2_def
      resolve_def start_def walk.simps(2))
  have f: "files file_world [''proj'', ''myapp''] = Some (File ''x'')"
    by (simp add: file_world_def)
  show ?thesis using target_is_file [OF c r f] c r f by simp
qed

section \<open>The order of the operations\<close>

text \<open>
  The order of the attempts as the specification lists it: every folder of the
  structure table in key order, each followed at once by its subfolders.
\<close>

definition attempt_order :: "string list list" where
  "attempt_order =
     [[''admin''],
      [''api''], [''api'', ''exceptions''], [''api'', ''filters''], [''api'', ''orderings''],
      [''api'', ''paginations''], [''api'', ''permissions''], [''api'', ''schema''],
      [''api'', ''routers''], [''api'', ''serializers''], [''api'', ''throttlings''],
      [''api'', ''views''],
      [''models''], [''models'', ''helper''],
      [''repository''], [''repository'', ''manager''], [''repository'', ''queryset''],
      [''signals''],
      [''tests''], [''tests'', ''models''], [''tests'', ''api''], [''tests'', ''admin''],
      [''validators'']]"

fun create_each :: "string \<Rightarrow> string list list \<Rightarrow> world \<Rightarrow> outcome \<times> world" where
  "create_each base [] w = (Returned, w)"
| "create_each base (rel # rest) w =
     and_then (create_folder_with_init (os_path_join base rel)) (create_each base rest) w"

definition ordered_run :: "string \<Rightarrow> world \<Rightarrow> outcome \<times> world" where
  "ordered_run app_name w =
     (case os_getcwd w of
        Inl e \<Rightarrow> (Raised e, w)
      | Inr c \<Rightarrow>
          (let base = os_path_join c [app_name] in
           if \<not> os_path_exists base w then
             stdout_write (ERROR, ''App '' @ quoted app_name @ '' does not exist'') w
           else
             and_then
               (remove_each base [''models.py'', ''admin.py'', ''tests.py'', ''views.py''])
               (and_then
                  (create_each base (attempt_order @ [[''models'', ''helper'', ''enums'']]))
                  (stdout_write
                     (SUCCESS, ''Structure created for app '' @ quoted app_name))) w))"

lemma and_then_assoc: "and_then (and_then f g) h = and_then f (and_then g h)"
  by (rule ext) (simp add: and_then_def split: prod.splits outcome.splits)

lemma and_then_return_left: "and_then (\<lambda>w. (Returned, w)) g = g"
  by (rule ext) (simp add: and_then_def)

lemma and_then_return_right: "and_then f (\<lambda>w. (Returned, w)) = f"
  by (rule ext) (simp add: and_then_def split: prod.splits outcome.splits)

lemma create_each_append:
  "create_each base (xs @ ys) = and_then (create_each base xs) (create_each base ys)"
proof (induction xs)
  case Nil
  have "create_each base [] = (\<lambda>w. (Returned, w))" by (rule ext) simp
  then show ?case by (simp add: and_then_return_left)
next
  case (Cons x xs)
  have "create_each base (x # xs @ ys) =
      and_then (create_folder_with_init (os_path_join base x)) (create_each base (xs @ ys))"
    by (rule ext) simp
  also have "\<dots> = and_then (and_then (create_folder_with_init (os_path_join base x))
      (create_each base xs)) (create_each base ys)"
    by (simp add: Cons.IH and_then_assoc)
  also have "and_then (create_folder_with_init (os_path_join base x)) (create_each base xs) =
      create_each base (x # xs)"
    by (rule ext) simp
  finally show ?case by simp
qed

lemma os_path_join_append: "os_path_join (os_path_join a xs) ys = os_path_join a (xs @ ys)"
  by (simp add: os_path_join_def)

lemma create_subfolders_each:
  "create_subfolders (os_path_join base [folder]) subs =
     create_each base (map (\<lambda>sub. [folder, sub]) subs)"
proof (induction subs)
  case Nil
  show ?case by (rule ext) simp
next
  case (Cons sub subs)
  show ?case by (rule ext) (simp add: Cons.IH os_path_join_append)
qed

lemma create_each_Cons:
  "create_each base (x # xs) =
     and_then (create_folder_with_init (os_path_join base x)) (create_each base xs)"
  by (rule ext) simp

lemma create_folder_structure_each:
  "create_folder_structure base table =
     create_each base (concat (map (\<lambda>(folder, subs). [folder] # map (\<lambda>sub. [folder, sub]) subs) table))"
proof (induction table)
  case Nil
  show ?case by (rule ext) simp
next
  case (Cons row table)
  obtain folder subs where row: "row = (folder, subs)" by (cases row)
  let ?rest = "concat (map (\<lambda>(folder, subs). [folder] # map (\<lambda>sub. [folder, sub]) subs) table)"
  have "create_folder_structure base (row # table) =
      and_then (create_folder_with_init (os_path_join base [folder]))
        (and_then (create_each base (map (\<lambda>sub. [folder, sub]) subs))
           (create_each base ?rest))"
    by (rule ext) (simp add: row Let_def create_subfolders_each Cons.IH)
  also have "\<dots> = create_each base (([folder] # map (\<lambda>sub. [folder, sub]) subs) @ ?rest)"
    by (simp only: create_each_append create_each_Cons and_then_assoc)
  finally show ?case by (simp add: row)
qed

lemma structure_table_order:
  "concat (map (\<lambda>(folder, subs). [folder] # map (\<lambda>sub. [folder, sub]) subs) structure_table)
     = attempt_order"
  by (simp add: structure_table_def attempt_order_def)

lemma handle_flat: "handle app_name w = ordered_run app_name w"
proof -
  have "and_then (create_folder_structure b structure_table)
          (and_then (create_folder_with_init (os_path_join b [''models'', ''helper'', ''enums'']))
             k) =
        and_then (create_each b (attempt_order @ [[''models'', ''helper'', ''enums'']])) k"
    for b k
  proof -
    have "create_each b [[''models'', ''helper'', ''enums'']] =
        create_folder_with_init (os_path_join b [''models'', ''helper'', ''enums''])"
      by (rule ext) (simp add: and_then_return_right [unfolded fun_eq_iff, rule_format] and_then_def
          split: prod.splits outcome.splits)
    then show ?thesis
      by (simp add: create_folder_structure_each structure_table_order create_each_append
          and_then_assoc)
  qed
  then show ?thesis
    by (simp add: handle_def ordered_run_def remove_default_files_def default_files_def
        Let_def split: sum.splits)
qed

text \<open>
  Claim C6. A run on an existing target does, in this order: the removals of
  \<^verbatim>\<open>models.py\<close>, \<^verbatim>\<open>admin.py\<close>, \<^verbatim>\<open>tests.py\<close>, \<^verbatim>\<open>views.py\<close>; the creation
  attempts in the key order of the structure table, every top-level folder right
  before its own subfolders (\<open>attempt_order\<close>); the attempt on
  \<^verbatim>\<open>models/helper/enums\<close>; the final success message. \<open>ordered_run\<close> is that
  sequence written out as one list, and the command's nested loops compute the same
  function of the app name and the world, whatever the world is.
\<close>

theorem handle_order: "handle app_name w = ordered_run app_name w"
  by (rule handle_flat)

section \<open>What one creation does to a well-formed tree\<close>

lemma tree_parent: "tree fs \<Longrightarrow> fs (p @ [n]) \<noteq> None \<Longrightarrow> fs p = Some Dir"
  unfolding tree_def by blast

lemma tree_add:
  assumes "tree fs" "fs P = Some Dir" "fs (P @ [n]) = None"
  shows "tree (fs(P @ [n] \<mapsto> e))"
  unfolding tree_def
proof (intro allI impI)
  fix p m
  assume a: "(fs(P @ [n] \<mapsto> e)) (p @ [m]) \<noteq> None"
  show "(fs(P @ [n] \<mapsto> e)) p = Some Dir"
  proof (cases "p @ [m] = P @ [n]")
    case True
    then have "p = P" by simp
    then show ?thesis using assms(2,3) by auto
  next
    case False
    with a have "fs (p @ [m]) \<noteq> None" by (auto split: if_splits)
    then have "fs p = Some Dir" using assms(1) by (rule tree_parent [rotated])
    then show ?thesis using assms(3) by auto
  qed
qed

lemma tree_remove:
  assumes "tree fs" "fs q = Some (File c)"
  shows "tree (fs(q := None))"
  unfolding tree_def
proof (intro allI impI)
  fix p m
  assume a: "(fs(q := None)) (p @ [m]) \<noteq> None"
  then have "fs (p @ [m]) \<noteq> None" by (auto split: if_splits)
  then have "fs p = Some Dir" using assms(1) by (rule tree_parent [rotated])
  then show "(fs(q := None)) p = Some Dir" using assms(2) by auto
qed

lemma os_path_join_snoc: "os_path_join b (r @ [n]) = join2 (os_path_join b r) n"
  by (simp add: os_path_join_def)

lemma resolve_path_join:
  assumes "tree (files w)" "resolve w b = Inr B"
  shows "\<forall>n\<in>set r. plain n \<Longrightarrow> files w (B @ r) \<noteq> None \<Longrightarrow>
         resolve w (os_path_join b r) = Inr (B @ r)"
proof (induction r rule: rev_induct)
  case Nil
  then show ?case using assms(2) by (simp add: os_path_join_def)
next
  case (snoc n r)
  have d: "files w (B @ r) = Some Dir"
    using tree_parent [OF assms(1), of "B @ r" n] snoc.prems(2) by simp
  then have "resolve w (os_path_join b r) = Inr (B @ r)"
    using snoc by simp
  then have rd: "resolve_dir w (os_path_join b r) = Inr (B @ r)"
    using d by (rule resolve_dir_cases)
  have ne: "os_path_join b r \<noteq> []"
    using \<open>resolve w (os_path_join b r) = Inr (B @ r)\<close> by (auto simp: resolve_def)
  have "plain n" using snoc.prems(1) by simp
  then show ?case using ne rd
    by (simp add: os_path_join_snoc resolve_parent_join2)
qed

definition created :: "path \<Rightarrow> string \<Rightarrow> world \<Rightarrow> world" where
  "created p s w =
     w\<lparr>files := (files w)(p \<mapsto> Dir, p @ [''__init__.py''] \<mapsto> File []),
       stdout := stdout w @ [(SUCCESS, ''Created '' @ s)]\<rparr>"

lemma create_step:
  assumes t: "tree (files w)" and b: "resolve w b = Inr B"
    and pr: "\<forall>n\<in>set pr. plain n" and n: "plain n"
    and ex: "files w (B @ pr) = Some e"
  shows "create_folder_with_init (os_path_join b (pr @ [n])) w =
     (case e of
        File c \<Rightarrow> (Raised NotADirectoryError, w)
      | Dir \<Rightarrow>
          if files w (B @ pr @ [n]) \<noteq> None then (Returned, w)
          else (Returned, created (B @ pr @ [n]) (os_path_join b (pr @ [n])) w))"
proof -
  have r: "resolve w (os_path_join b pr) = Inr (B @ pr)"
    using t b pr ex by (intro resolve_path_join [rule_format]) simp_all
  show ?thesis
  proof (cases e)
    case Dir
    then show ?thesis
      using create_folder_with_init_in_dir [OF t n r] ex
      by (simp add: os_path_join_snoc created_def)
  next
    case (File c)
    then show ?thesis
      using create_folder_with_init_under_file [OF n r] ex
      by (simp add: os_path_join_snoc)
  qed
qed

text \<open>
  The creation phase only adds: a path that changes was absent, and becomes either a
  directory of the set \<open>N\<close> or the marker file of a directory of \<open>N\<close> that
  was absent as well.
\<close>

definition grows :: "path set \<Rightarrow> world \<Rightarrow> world \<Rightarrow> bool" where
  "grows N w w' \<longleftrightarrow>
     cwd w' = cwd w \<and> tree (files w') \<and>
     (\<exists>ms. stdout w' = stdout w @ ms \<and> (\<forall>m\<in>set ms. fst m = SUCCESS)) \<and>
     (\<forall>p. files w' p = files w p \<or>
          files w p = None \<and>
          (p \<in> N \<and> files w' p = Some Dir \<or>
           (\<exists>q\<in>N. files w q = None \<and> p = q @ [''__init__.py''] \<and>
                   files w' p = Some (File []))))"

lemma grows_refl: "tree (files w) \<Longrightarrow> grows N w w"
  by (simp add: grows_def)

lemma grows_keeps: "grows N w w' \<Longrightarrow> files w p = Some e \<Longrightarrow> files w' p = Some e"
  unfolding grows_def by (metis option.distinct(1))

lemma grows_none: "grows N w w' \<Longrightarrow> files w' p = None \<Longrightarrow> files w p = None"
  unfolding grows_def by (metis option.distinct(1))

lemma grows_trans:
  assumes "grows N1 w w1" "grows N2 w1 w2"
  shows "grows (N1 \<union> N2) w w2"
proof -
  obtain ms1 where m1: "stdout w1 = stdout w @ ms1" "\<forall>m\<in>set ms1. fst m = SUCCESS"
    using assms(1) unfolding grows_def by blast
  obtain ms2 where m2: "stdout w2 = stdout w1 @ ms2" "\<forall>m\<in>set ms2. fst m = SUCCESS"
    using assms(2) unfolding grows_def by blast
  have out: "\<exists>ms. stdout w2 = stdout w @ ms \<and> (\<forall>m\<in>set ms. fst m = SUCCESS)"
    using m1 m2 by (intro exI [of _ "ms1 @ ms2"]) auto
  have pt: "files w2 p = files w p \<or>
          files w p = None \<and>
          (p \<in> N1 \<union> N2 \<and> files w2 p = Some Dir \<or>
           (\<exists>q\<in>N1 \<union> N2. files w q = None \<and> p = q @ [''__init__.py''] \<and>
                   files w2 p = Some (File [])))" for p
  proof (cases "files w2 p = files w1 p")
    case True
    then show ?thesis using assms(1) unfolding grows_def by (metis UnI1)
  next
    case False
    then have c: "files w1 p = None"
      "p \<in> N2 \<and> files w2 p = Some Dir \<or>
           (\<exists>q\<in>N2. files w1 q = None \<and> p = q @ [''__init__.py''] \<and>
                   files w2 p = Some (File []))"
      using assms(2) unfolding grows_def by metis+
    have "files w p = None" using c(1) assms(1) by (rule grows_none [rotated])
    moreover have "files w q = None" if "files w1 q = None" for q
      using that assms(1) by (rule grows_none [rotated])
    ultimately show ?thesis using c(2) by blast
  qed
  show ?thesis
    unfolding grows_def using assms out pt by (simp add: grows_def)
qed

lemma grows_mono: "grows N w w' \<Longrightarrow> N \<subseteq> M \<Longrightarrow> grows M w w'"
  unfolding grows_def by (meson subsetD)

lemma grows_resolve:
  assumes "grows N w w'" "resolve w b = Inr B"
  shows "resolve w' b = Inr B"
proof (rule resolve_keeps [OF _ _ assms(2)])
  show "files w' p = Some Dir" if "files w p = Some Dir" for p
    using assms(1) that by (rule grows_keeps)
  show "cwd w' = cwd w" using assms(1) by (simp add: grows_def)
qed

lemma grows_created:
  assumes t: "tree (files w)" and d: "files w P = Some Dir" and a: "files w (P @ [n]) = None"
  shows "grows {P @ [n]} w (created (P @ [n]) s w)"
proof -
  have m: "files w ((P @ [n]) @ [''__init__.py'']) = None"
    using t a unfolding tree_def by (metis option.distinct(1))
  have t1: "tree ((files w)(P @ [n] \<mapsto> Dir))" using t d a by (rule tree_add)
  have "tree (((files w)(P @ [n] \<mapsto> Dir))((P @ [n]) @ [''__init__.py''] \<mapsto> File []))"
    using t1 by (rule tree_add) (use m in simp_all)
  then show ?thesis using a m
    by (auto simp: grows_def created_def)
qed

text \<open>
  A list of relative paths in which every path comes after its parent, the parents of
  the first ones being in \<open>S\<close>.
\<close>

fun parents_first :: "string list set \<Rightarrow> string list list \<Rightarrow> bool" where
  "parents_first S [] = True"
| "parents_first S (rel # rest) =
     (rel \<noteq> [] \<and> (\<forall>n\<in>set rel. plain n) \<and> butlast rel \<in> S \<and>
      parents_first (insert rel S) rest)"

lemma files_created [simp]:
  "files (created p s w) = (files w)(p \<mapsto> Dir, p @ [''__init__.py''] \<mapsto> File [])"
  "cwd (created p s w) = cwd w"
  "stdout (created p s w) = stdout w @ [(SUCCESS, ''Created '' @ s)]"
  by (simp_all add: created_def)

lemma create_each_grows:
  assumes "parents_first S rels" "tree (files w)" "resolve w b = Inr B"
    and "\<forall>r\<in>S. files w (B @ r) \<noteq> None \<and> (\<forall>n\<in>set r. plain n)"
    and "create_each b rels w = (r, w')"
  shows "grows ((\<lambda>rel. B @ rel) ` set rels) w w' \<and>
         (r = Returned \<longrightarrow> (\<forall>rel\<in>set rels. files w' (B @ rel) \<noteq> None))"
  using assms
proof (induction rels arbitrary: S w)
  case Nil
  then show ?case by (simp add: grows_refl)
next
  case (Cons rel rest)
  let ?pr = "butlast rel" and ?n = "last rel"
  let ?N = "(\<lambda>rel. B @ rel) ` set rest"
  from Cons.prems(1) have rel: "rel = ?pr @ [?n]" and pl: "\<forall>n\<in>set rel. plain n"
    and par: "?pr \<in> S" and rest: "parents_first (insert rel S) rest"
    by simp_all
  have pln: "plain ?n" and plp: "\<forall>n\<in>set ?pr. plain n"
    using pl rel by (metis last_in_set snoc_eq_iff_butlast, metis in_set_butlastD)
  obtain e where e: "files w (B @ ?pr) = Some e"
    using Cons.prems(4) par by auto
  have Brel: "B @ rel = B @ ?pr @ [?n]" using rel by simp
  note step = create_step [OF Cons.prems(2,3) plp pln e, folded Brel, folded rel]
  have S': "\<forall>r\<in>insert rel S. files w1 (B @ r) \<noteq> None \<and> (\<forall>n\<in>set r. plain n)"
    if "files w1 (B @ rel) \<noteq> None" "\<And>p e. files w p = Some e \<Longrightarrow> files w1 p = Some e" for w1
    using that Cons.prems(4) pl by auto
  show ?case
  proof (cases e)
    case (File c)
    then have "create_each b (rel # rest) w = (Raised NotADirectoryError, w)"
      using step by (simp add: and_then_def)
    with Cons.prems(5) have "r = Raised NotADirectoryError" "w' = w" by simp_all
    then show ?thesis using Cons.prems(2) by (simp add: grows_refl)
  next
    case Dir
    show ?thesis
    proof (cases "files w (B @ rel) = None")
      case False
      then have "create_each b (rel # rest) w = create_each b rest w"
        using step Dir by (simp add: and_then_def)
      then have run: "create_each b rest w = (r, w')" using Cons.prems(5) by simp
      have ih: "grows ?N w w' \<and> (r = Returned \<longrightarrow> (\<forall>rel\<in>set rest. files w' (B @ rel) \<noteq> None))"
        using rest Cons.prems(2,3) S' [of w] False run by (intro Cons.IH) auto
      then have "grows ?N w w'" by simp
      then have "grows ((\<lambda>rel. B @ rel) ` set (rel # rest)) w w'"
        by (rule grows_mono) auto
      moreover have "files w' (B @ rel) \<noteq> None"
        using ih False grows_keeps [of ?N w w' "B @ rel"] by auto
      ultimately show ?thesis using ih by simp
    next
      case True
      let ?w1 = "created (B @ rel) (os_path_join b rel) w"
      have "create_each b (rel # rest) w = create_each b rest ?w1"
        using step Dir True by (simp add: and_then_def)
      then have run: "create_each b rest ?w1 = (r, w')" using Cons.prems(5) by simp
      have d: "files w (B @ ?pr) = Some Dir" using e Dir by simp
      have "files w ((B @ ?pr) @ [?n]) = None" using True Brel by simp
      then have "grows {(B @ ?pr) @ [?n]} w
          (created ((B @ ?pr) @ [?n]) (os_path_join b rel) w)"
        using Cons.prems(2) d by (intro grows_created)
      then have g1: "grows {B @ rel} w ?w1" using Brel by simp
      have t1: "tree (files ?w1)" using g1 by (simp add: grows_def)
      have r1: "resolve ?w1 b = Inr B" using g1 Cons.prems(3) by (rule grows_resolve)
      have "\<forall>r\<in>insert rel S. files ?w1 (B @ r) \<noteq> None \<and> (\<forall>n\<in>set r. plain n)"
      proof (rule S')
        show "files ?w1 (B @ rel) \<noteq> None" by simp
        show "files ?w1 p = Some e" if "files w p = Some e" for p e
          using g1 that by (rule grows_keeps)
      qed
      then have ih: "grows ?N ?w1 w' \<and>
          (r = Returned \<longrightarrow> (\<forall>rel\<in>set rest. files w' (B @ rel) \<noteq> None))"
        using rest t1 r1 run by (intro Cons.IH)
      then have "grows ?N ?w1 w'" by simp
      with g1 have "grows ({B @ rel} \<union> ?N) w w'" by (rule grows_trans)
      then have "grows ((\<lambda>rel. B @ rel) ` set (rel # rest)) w w'" by simp
      moreover have "files w' (B @ rel) \<noteq> None"
        using ih grows_keeps [of ?N ?w1 w' "B @ rel" Dir] by simp
      ultimately show ?thesis using ih by simp
    qed
  qed
qed

section \<open>The removal of the default files\<close>

definition removed :: "path \<Rightarrow> string \<Rightarrow> world \<Rightarrow> world" where
  "removed p s w =
     w\<lparr>files := (files w)(p := None), stdout := stdout w @ [(WARNING, ''Removed '' @ s)]\<rparr>"

lemma files_removed [simp]:
  "files (removed p s w) = (files w)(p := None)"
  "cwd (removed p s w) = cwd w"
  "stdout (removed p s w) = stdout w @ [(WARNING, ''Removed '' @ s)]"
  by (simp_all add: removed_def)

lemma remove_each_Cons:
  "remove_each b (d # ds) w =
     and_then
       (\<lambda>w. if os_path_exists (join2 b d) w
             then and_then (os_remove (join2 b d))
                    (stdout_write (WARNING, ''Removed '' @ join2 b d)) w
             else (Returned, w))
       (remove_each b ds) w"
  by (simp add: Let_def os_path_join_def)

lemma remove_step:
  assumes "resolve w b = Inr B" "files w B = Some Dir" "plain d"
  shows "(if os_path_exists (join2 b d) w
          then and_then (os_remove (join2 b d))
                 (stdout_write (WARNING, ''Removed '' @ join2 b d)) w
          else (Returned, w)) =
     (case files w (B @ [d]) of
        None \<Rightarrow> (Returned, w)
      | Some Dir \<Rightarrow> (Raised IsADirectoryError, w)
      | Some (File c) \<Rightarrow> (Returned, removed (B @ [d]) (join2 b d) w))"
proof -
  have b: "b \<noteq> []" using assms(1) by (auto simp: resolve_def)
  have rd: "resolve_dir w b = Inr B" using assms(1,2) by (rule resolve_dir_cases)
  show ?thesis using assms(3) b
    by (simp add: exists_join2 remove_join2 rd and_then_def stdout_write_def removed_def
        split: option.splits entry.splits)
qed

text \<open>
  The removal phase only deletes regular files, and only at the paths of \<open>D\<close>.
\<close>

definition shrinks :: "path set \<Rightarrow> world \<Rightarrow> world \<Rightarrow> bool" where
  "shrinks D w w' \<longleftrightarrow>
     cwd w' = cwd w \<and> (tree (files w) \<longrightarrow> tree (files w')) \<and>
     (\<exists>ms. stdout w' = stdout w @ ms \<and> (\<forall>m\<in>set ms. fst m = WARNING)) \<and>
     (\<forall>p. files w' p = files w p \<or>
          p \<in> D \<and> (\<exists>c. files w p = Some (File c)) \<and> files w' p = None)"

lemma shrinks_refl: "shrinks D w w"
  by (simp add: shrinks_def)

lemma shrinks_removed:
  "files w p = Some (File c) \<Longrightarrow> shrinks {p} w (removed p s w)"
  by (auto simp: shrinks_def intro: tree_remove)

lemma shrinks_dirs: "shrinks D w w' \<Longrightarrow> files w p = Some Dir \<Longrightarrow> files w' p = Some Dir"
  unfolding shrinks_def by (metis entry.distinct(1) option.inject)

lemma shrinks_none: "shrinks D w w' \<Longrightarrow> files w p = None \<Longrightarrow> files w' p = None"
  unfolding shrinks_def by (metis option.distinct(1))

lemma shrinks_resolve:
  assumes "shrinks D w w'" "resolve w b = Inr B"
  shows "resolve w' b = Inr B"
proof (rule resolve_keeps [OF _ _ assms(2)])
  show "files w' p = Some Dir" if "files w p = Some Dir" for p
    using assms(1) that by (rule shrinks_dirs)
  show "cwd w' = cwd w" using assms(1) by (simp add: shrinks_def)
qed

lemma shrinks_trans:
  assumes "shrinks D1 w w1" "shrinks D2 w1 w2"
  shows "shrinks (D1 \<union> D2) w w2"
proof -
  obtain ms1 where m1: "stdout w1 = stdout w @ ms1" "\<forall>m\<in>set ms1. fst m = WARNING"
    using assms(1) unfolding shrinks_def by blast
  obtain ms2 where m2: "stdout w2 = stdout w1 @ ms2" "\<forall>m\<in>set ms2. fst m = WARNING"
    using assms(2) unfolding shrinks_def by blast
  have out: "\<exists>ms. stdout w2 = stdout w @ ms \<and> (\<forall>m\<in>set ms. fst m = WARNING)"
    using m1 m2 by (intro exI [of _ "ms1 @ ms2"]) auto
  have pt: "files w2 p = files w p \<or>
          p \<in> D1 \<union> D2 \<and> (\<exists>c. files w p = Some (File c)) \<and> files w2 p = None" for p
  proof (cases "files w2 p = files w1 p")
    case True
    then show ?thesis using assms(1) unfolding shrinks_def by (metis UnI1)
  next
    case False
    then have c: "p \<in> D2" "\<exists>c. files w1 p = Some (File c)" "files w2 p = None"
      using assms(2) unfolding shrinks_def by metis+
    have "files w1 p = files w p"
      using assms(1) c(2) unfolding shrinks_def by (metis option.distinct(1))
    then show ?thesis using c by auto
  qed
  show ?thesis
    unfolding shrinks_def using assms out pt by (simp add: shrinks_def)
qed

lemma shrinks_mono: "shrinks D w w' \<Longrightarrow> D \<subseteq> E \<Longrightarrow> shrinks E w w'"
  unfolding shrinks_def by (meson subsetD)

lemma remove_each_shrinks:
  assumes "resolve w b = Inr B" "files w B = Some Dir" "\<forall>d\<in>set ds. plain d"
    and "remove_each b ds w = (r, w')"
  shows "shrinks ((\<lambda>d. B @ [d]) ` set ds) w w' \<and>
         (r = Returned \<longrightarrow> (\<forall>d\<in>set ds. files w' (B @ [d]) = None))"
  using assms
proof (induction ds arbitrary: w)
  case Nil
  then show ?case by (simp add: shrinks_refl)
next
  case (Cons d ds)
  let ?D = "(\<lambda>d. B @ [d]) ` set ds"
  have pd: "plain d" using Cons.prems(3) by simp
  note step = remove_step [OF Cons.prems(1,2) pd]
  show ?case
  proof (cases "files w (B @ [d])")
    case None
    then have "remove_each b (d # ds) w = remove_each b ds w"
      unfolding remove_each_Cons by (simp add: and_then_def step)
    then have run: "remove_each b ds w = (r, w')" using Cons.prems(4) by simp
    have ih: "shrinks ?D w w' \<and> (r = Returned \<longrightarrow> (\<forall>d\<in>set ds. files w' (B @ [d]) = None))"
      using Cons.prems(1,2,3) run by (intro Cons.IH) auto
    then have "shrinks ?D w w'" by simp
    then have "shrinks ((\<lambda>d. B @ [d]) ` set (d # ds)) w w'" by (rule shrinks_mono) auto
    moreover have "files w' (B @ [d]) = None"
      using ih None shrinks_none [of ?D w w' "B @ [d]"] by simp
    ultimately show ?thesis using ih by simp
  next
    case (Some e)
    show ?thesis
    proof (cases e)
      case Dir
      then have "remove_each b (d # ds) w = (Raised IsADirectoryError, w)"
        unfolding remove_each_Cons using Some by (simp add: and_then_def step)
      with Cons.prems(4) have "r = Raised IsADirectoryError" "w' = w" by simp_all
      then show ?thesis by (simp add: shrinks_refl)
    next
      case (File c)
      let ?w1 = "removed (B @ [d]) (join2 b d) w"
      have "remove_each b (d # ds) w = remove_each b ds ?w1"
        unfolding remove_each_Cons using Some File by (simp add: and_then_def step)
      then have run: "remove_each b ds ?w1 = (r, w')" using Cons.prems(4) by simp
      have s1: "shrinks {B @ [d]} w ?w1" using Some File by (intro shrinks_removed) simp
      have r1: "resolve ?w1 b = Inr B" using s1 Cons.prems(1) by (rule shrinks_resolve)
      have d1: "files ?w1 B = Some Dir" using Cons.prems(2) by simp
      have ih: "shrinks ?D ?w1 w' \<and>
          (r = Returned \<longrightarrow> (\<forall>d\<in>set ds. files w' (B @ [d]) = None))"
        using r1 d1 Cons.prems(3) run by (intro Cons.IH) auto
      then have "shrinks ?D ?w1 w'" by simp
      with s1 have "shrinks ({B @ [d]} \<union> ?D) w w'" by (rule shrinks_trans)
      then have "shrinks ((\<lambda>d. B @ [d]) ` set (d # ds)) w w'" by simp
      moreover have "files w' (B @ [d]) = None"
        using ih shrinks_none [of ?D ?w1 w' "B @ [d]"] by simp
      ultimately show ?thesis using ih by simp
    qed
  qed
qed

section \<open>The two phases of a run\<close>

definition all_attempts :: "string list list" where
  "all_attempts = attempt_order @ [[''models'', ''helper'', ''enums'']]"

definition final_message :: "string \<Rightarrow> style \<times> string" where
  "final_message app_name = (SUCCESS, ''Structure created for app '' @ quoted app_name)"

lemma parents_first_attempts: "parents_first {[]} all_attempts"
  by (simp add: all_attempts_def attempt_order_def)

lemma attempts_shape:
  "\<forall>rel\<in>set all_attempts. rel \<noteq> [] \<and> last rel \<noteq> ''__init__.py'' \<and> (\<forall>n\<in>set rel. plain n)"
  by (simp add: all_attempts_def attempt_order_def)

lemma defaults_not_attempted: "\<forall>d\<in>set default_files. [d] \<notin> set all_attempts"
  by (simp add: all_attempts_def attempt_order_def default_files_def)

lemma defaults_plain: "\<forall>d\<in>set default_files. plain d"
  by (simp add: default_files_def)

lemma handle_phases:
  assumes "files w (cwd w) = Some Dir" "os_path_exists (base_dir w app_name) w"
  shows "handle app_name w =
     and_then (remove_each (base_dir w app_name) default_files)
       (and_then (create_each (base_dir w app_name) all_attempts)
          (stdout_write (final_message app_name))) w"
  using assms
  by (simp add: handle_flat ordered_run_def os_getcwd_def base_dir_def Let_def
      default_files_def all_attempts_def final_message_def)

lemma handle_effect:
  assumes c: "files w (cwd w) = Some Dir" and t: "tree (files w)"
    and b: "resolve w (base_dir w app_name) = Inr B" and d: "files w B = Some Dir"
    and run: "handle app_name w = (r, w')"
  shows "\<exists>w1 w2.
     shrinks ((\<lambda>d. B @ [d]) ` set default_files) w w1 \<and>
     grows ((\<lambda>rel. B @ rel) ` set all_attempts) w1 w2 \<and>
     files w' = files w2 \<and> cwd w' = cwd w2 \<and>
     (r = Returned \<longrightarrow>
        (\<forall>d\<in>set default_files. files w1 (B @ [d]) = None) \<and>
        (\<forall>rel\<in>set all_attempts. files w2 (B @ rel) \<noteq> None) \<and>
        stdout w' = stdout w2 @ [final_message app_name])"
proof -
  let ?b = "base_dir w app_name"
  let ?D = "(\<lambda>d. B @ [d]) ` set default_files"
  let ?N = "(\<lambda>rel. B @ rel) ` set all_attempts"
  have ex: "os_path_exists ?b w" using b d by (auto simp: exists_iff)
  note ph = handle_phases [OF c ex]
  obtain r1 w1 where rm: "remove_each ?b default_files w = (r1, w1)"
    by (cases "remove_each ?b default_files w")
  have s: "shrinks ?D w w1" and s0: "r1 = Returned \<longrightarrow> (\<forall>d\<in>set default_files. files w1 (B @ [d]) = None)"
    using remove_each_shrinks [OF b d defaults_plain rm] by simp_all
  have t1: "tree (files w1)" using s t by (simp add: shrinks_def)
  show ?thesis
  proof (cases r1)
    case (Raised e)
    then have "handle app_name w = (Raised e, w1)"
      using ph rm by (simp add: and_then_def)
    with run have "r = Raised e" "w' = w1" by simp_all
    then show ?thesis using s grows_refl [OF t1] by auto
  next
    case Returned
    obtain r2 w2 where cr: "create_each ?b all_attempts w1 = (r2, w2)"
      by (cases "create_each ?b all_attempts w1")
    have b1: "resolve w1 ?b = Inr B" using s b by (rule shrinks_resolve)
    have d1: "files w1 B = Some Dir" using s d by (rule shrinks_dirs)
    have S: "\<forall>r\<in>{[]}. files w1 (B @ r) \<noteq> None \<and> (\<forall>n\<in>set r. plain n)"
      using d1 by simp
    have g: "grows ?N w1 w2"
      and g0: "r2 = Returned \<longrightarrow> (\<forall>rel\<in>set all_attempts. files w2 (B @ rel) \<noteq> None)"
      using create_each_grows [OF parents_first_attempts t1 b1 S cr] by simp_all
    show ?thesis
    proof (cases r2)
      case (Raised e)
      then have "handle app_name w = (Raised e, w2)"
        using ph rm cr Returned by (simp add: and_then_def)
      with run have "r = Raised e" "w' = w2" by simp_all
      then show ?thesis using s g by auto
    next
      case Returned': Returned
      then have "handle app_name w =
          (Returned, w2\<lparr>stdout := stdout w2 @ [final_message app_name]\<rparr>)"
        using ph rm cr Returned by (simp add: and_then_def stdout_write_def)
      with run have "r = Returned" "w' = w2\<lparr>stdout := stdout w2 @ [final_message app_name]\<rparr>"
        by simp_all
      then show ?thesis using s g s0 g0 Returned Returned'
        by (intro exI [of _ w1] exI [of _ w2]) simp
    qed
  qed
qed

text \<open>A default file that has been removed is not created again.\<close>

lemma default_not_grown:
  assumes "grows ((\<lambda>rel. B @ rel) ` set all_attempts) w1 w2"
    and "d \<in> set default_files" "files w1 (B @ [d]) = None"
  shows "files w2 (B @ [d]) = None"
proof (rule ccontr)
  assume n: "files w2 (B @ [d]) \<noteq> None"
  then have "files w2 (B @ [d]) \<noteq> files w1 (B @ [d])" using assms(3) by simp
  then consider "B @ [d] \<in> (\<lambda>rel. B @ rel) ` set all_attempts"
    | q where "q \<in> (\<lambda>rel. B @ rel) ` set all_attempts" "B @ [d] = q @ [''__init__.py'']"
    using assms(1) unfolding grows_def by metis
  then show False
  proof cases
    case 1
    then have "[d] \<in> set all_attempts" by auto
    then show False using defaults_not_attempted assms(2) by blast
  next
    case 2
    then obtain rel where rel: "rel \<in> set all_attempts" "B @ [d] = (B @ rel) @ [''__init__.py'']"
      by auto
    then have "[d] = rel @ [''__init__.py'']" by simp
    then have "rel = []" by (metis append_is_Nil_conv butlast.simps(2) butlast_snoc)
    then show False using attempts_shape rel(1) by blast
  qed
qed

text \<open>A marker file is only created inside a directory created by this run.\<close>

lemma marker_not_grown:
  assumes "grows ((\<lambda>rel. B @ rel) ` set all_attempts) w1 w2"
    and "files w1 q \<noteq> None" "files w1 (q @ [''__init__.py'']) = None"
  shows "files w2 (q @ [''__init__.py'']) = None"
proof (rule ccontr)
  assume n: "files w2 (q @ [''__init__.py'']) \<noteq> None"
  then have "files w2 (q @ [''__init__.py'']) \<noteq> files w1 (q @ [''__init__.py''])"
    using assms(3) by simp
  then consider "q @ [''__init__.py''] \<in> (\<lambda>rel. B @ rel) ` set all_attempts"
    | q' where "files w1 q' = None" "q @ [''__init__.py''] = q' @ [''__init__.py'']"
    using assms(1) unfolding grows_def by metis
  then show False
  proof cases
    case 1
    then obtain rel where rel: "rel \<in> set all_attempts" "q @ [''__init__.py''] = B @ rel"
      by auto
    have "rel \<noteq> []" using attempts_shape rel(1) by blast
    then have "last rel = ''__init__.py''"
      using rel(2) by (metis last_appendR last_snoc)
    then show False using attempts_shape rel(1) by blast
  next
    case 2
    then show False using assms(2) by simp
  qed
qed

lemma remove_each_absent:
  assumes "resolve w b = Inr B" "files w B = Some Dir"
  shows "\<forall>d\<in>set ds. plain d \<and> files w (B @ [d]) = None \<Longrightarrow>
         remove_each b ds w = (Returned, w)"
proof (induction ds)
  case Nil
  show ?case by simp
next
  case (Cons d ds)
  then have "plain d" "files w (B @ [d]) = None" by simp_all
  then show ?case
    unfolding remove_each_Cons using Cons remove_step [OF assms, of d]
    by (simp add: and_then_def)
qed

lemma create_each_noop:
  assumes "tree (files w)" "resolve w b = Inr B"
  shows "\<forall>rel\<in>set rels. (\<forall>n\<in>set rel. plain n) \<and> files w (B @ rel) \<noteq> None \<Longrightarrow>
         create_each b rels w = (Returned, w)"
proof (induction rels)
  case Nil
  show ?case by simp
next
  case (Cons rel rels)
  then have "resolve w (os_path_join b rel) = Inr (B @ rel)"
    using assms by (intro resolve_path_join) simp_all
  then have "os_path_exists (os_path_join b rel) w"
    using Cons.prems by (auto simp: exists_iff)
  then have "create_folder_with_init (os_path_join b rel) w = (Returned, w)"
    by (simp add: create_folder_with_init_def)
  then show ?case using Cons by (simp add: and_then_def)
qed

lemma handle_no_cwd:
  "files w (cwd w) \<noteq> Some Dir \<Longrightarrow> handle app_name w = (Raised FileNotFoundError, w)"
  by (simp add: handle_def os_getcwd_def)

lemma handle_files_cases:
  assumes t: "tree (files w)" and run: "handle app_name w = (r, w')"
  shows "files w' = files w \<or>
     (\<exists>B w1 w2. resolve w (base_dir w app_name) = Inr B \<and>
        shrinks ((\<lambda>d. B @ [d]) ` set default_files) w w1 \<and>
        grows ((\<lambda>rel. B @ rel) ` set all_attempts) w1 w2 \<and> files w' = files w2)"
proof (cases "files w (cwd w) = Some Dir")
  case False
  then show ?thesis using run by (simp add: handle_no_cwd)
next
  case c: True
  show ?thesis
  proof (cases "os_path_exists (base_dir w app_name) w")
    case False
    then show ?thesis using run c by (auto simp: handle_unfold stdout_write_def)
  next
    case True
    then obtain B e where B: "resolve w (base_dir w app_name) = Inr B" "files w B = Some e"
      by (auto simp: exists_iff)
    show ?thesis
    proof (cases e)
      case (File x)
      then show ?thesis using handle_file_target [OF c B(1)] B(2) run by simp
    next
      case Dir
      then show ?thesis using handle_effect [OF c t B(1) _ run] B by blast
    qed
  qed
qed

text \<open>
  Claim C9. Whatever the run does and however it ends, an entry that was there before
  is still there, unchanged, afterwards, unless it is a regular file named
  \<^verbatim>\<open>models.py\<close>, \<^verbatim>\<open>admin.py\<close>, \<^verbatim>\<open>tests.py\<close> or \<^verbatim>\<open>views.py\<close> directly in the
  target directory, which may be gone. In particular no directory is ever removed and no
  file content changes.
\<close>

theorem only_default_files_deleted:
  assumes "tree (files w)" and "handle app_name w = (r, w')" and "files w p = Some e"
  shows "files w' p = Some e \<or>
     (files w' p = None \<and> (\<exists>c. e = File c) \<and>
      (\<exists>B d. resolve w (base_dir w app_name) = Inr B \<and>
             d \<in> {''models.py'', ''admin.py'', ''tests.py'', ''views.py''} \<and> p = B @ [d]))"
proof -
  consider "files w' = files w"
    | B w1 w2 where "resolve w (base_dir w app_name) = Inr B"
        "shrinks ((\<lambda>d. B @ [d]) ` set default_files) w w1"
        "grows ((\<lambda>rel. B @ rel) ` set all_attempts) w1 w2" "files w' = files w2"
    using handle_files_cases [OF assms(1,2)] by blast
  then show ?thesis
  proof cases
    case 1
    then show ?thesis using assms(3) by simp
  next
    case 2
    show ?thesis
    proof (cases "files w1 p = files w p")
      case True
      then have "files w2 p = Some e" using 2(3) assms(3) by (auto intro: grows_keeps)
      then show ?thesis using 2(4) by simp
    next
      case False
      then obtain d c where d: "d \<in> set default_files" "p = B @ [d]"
        "files w p = Some (File c)" "files w1 p = None"
        using 2(2) unfolding shrinks_def by (metis (no_types, lifting) image_iff)
      have "files w2 (B @ [d]) = None"
        using 2(3) d(1) d(4) [unfolded d(2)] by (rule default_not_grown)
      then show ?thesis using 2(1,4) d assms(3) by (auto simp: default_files_def)
    qed
  qed
qed

text \<open>
  Claim C4. \<^verbatim>\<open>create_folder_with_init\<close> on a path that exists, as a directory or as
  a file, returns at once: the world, file system and console, is left as it is. And
  over a whole run, whatever its outcome, a directory that was there before without a
  marker file is still there and still has none.
\<close>

theorem existing_path_left_alone:
  "(os_path_exists path w \<longrightarrow> create_folder_with_init path w = (Returned, w)) \<and>
   (tree (files w) \<and> handle app_name w = (r, w') \<and>
    files w q = Some Dir \<and> files w (q @ [''__init__.py'']) = None \<longrightarrow>
      files w' q = Some Dir \<and> files w' (q @ [''__init__.py'']) = None)"
proof (intro conjI impI)
  assume "os_path_exists path w"
  then show "create_folder_with_init path w = (Returned, w)"
    by (simp add: create_folder_with_init_def)
next
  assume a: "tree (files w) \<and> handle app_name w = (r, w') \<and>
    files w q = Some Dir \<and> files w (q @ [''__init__.py'']) = None"
  then consider "files w' = files w"
    | B w1 w2 where "shrinks ((\<lambda>d. B @ [d]) ` set default_files) w w1"
        "grows ((\<lambda>rel. B @ rel) ` set all_attempts) w1 w2" "files w' = files w2"
    using handle_files_cases [of w app_name r w'] by blast
  then have "files w' q = Some Dir \<and> files w' (q @ [''__init__.py'']) = None"
  proof cases
    case 1
    then show ?thesis using a by simp
  next
    case 2
    have q1: "files w1 q = Some Dir" using 2(1) a by (auto intro: shrinks_dirs)
    have m1: "files w1 (q @ [''__init__.py'']) = None" using 2(1) a by (auto intro: shrinks_none)
    have "files w2 q = Some Dir" using 2(2) q1 by (rule grows_keeps)
    moreover have "files w2 (q @ [''__init__.py'']) = None"
      using 2(2) _ m1 by (rule marker_not_grown) (simp add: q1)
    ultimately show ?thesis using 2(3) by simp
  qed
  then show "files w' q = Some Dir" and "files w' (q @ [''__init__.py'']) = None"
    by simp_all
qed

lemma handle_again:
  assumes c: "files w (cwd w) = Some Dir" and t: "tree (files w)"
    and ex: "os_path_exists (base_dir w app_name) w"
    and run: "handle app_name w = (Returned, w1)"
  shows "base_dir w1 app_name = base_dir w app_name \<and>
         remove_default_files (base_dir w app_name) w1 = (Returned, w1) \<and>
         create_each (base_dir w app_name) all_attempts w1 = (Returned, w1) \<and>
         handle app_name w1 =
           (Returned, w1\<lparr>stdout := stdout w1 @ [final_message app_name]\<rparr>)"
proof -
  let ?b = "base_dir w app_name"
  obtain B e where B: "resolve w ?b = Inr B" "files w B = Some e"
    using ex by (auto simp: exists_iff)
  have d: "files w B = Some Dir"
  proof (cases e)
    case Dir
    then show ?thesis using B by simp
  next
    case (File x)
    then show ?thesis using handle_file_target [OF c B(1)] B(2) run by simp
  qed
  obtain wa wb where s: "shrinks ((\<lambda>d. B @ [d]) ` set default_files) w wa"
    and g: "grows ((\<lambda>rel. B @ rel) ` set all_attempts) wa wb"
    and f: "files w1 = files wb" "cwd w1 = cwd wb"
    and gone: "\<forall>d\<in>set default_files. files wa (B @ [d]) = None"
    and there: "\<forall>rel\<in>set all_attempts. files wb (B @ rel) \<noteq> None"
    using handle_effect [OF c t B(1) d run] by auto
  have cw: "cwd w1 = cwd w" using s g f by (simp add: shrinks_def grows_def)
  then have bd: "base_dir w1 app_name = ?b" by (simp add: base_dir_def)
  have t1: "tree (files w1)" using g f by (simp add: grows_def)
  have "resolve wb ?b = Inr B"
    using g shrinks_resolve [OF s B(1)] by (rule grows_resolve)
  then have b1: "resolve w1 ?b = Inr B"
    using f by (intro resolve_keeps [of wb w1]) simp_all
  have d1: "files w1 B = Some Dir"
    using f g shrinks_dirs [OF s d] by (simp add: grows_keeps)
  have c1: "files w1 (cwd w1) = Some Dir"
    using f cw g shrinks_dirs [OF s c] by (simp add: grows_keeps)
  have "\<forall>d\<in>set default_files. plain d \<and> files w1 (B @ [d]) = None"
    using defaults_plain gone f default_not_grown [OF g] by simp
  then have rm: "remove_each ?b default_files w1 = (Returned, w1)"
    by (rule remove_each_absent [OF b1 d1])
  have "\<forall>rel\<in>set all_attempts. (\<forall>n\<in>set rel. plain n) \<and> files w1 (B @ rel) \<noteq> None"
    using attempts_shape there f by simp
  then have cr: "create_each ?b all_attempts w1 = (Returned, w1)"
    by (rule create_each_noop [OF t1 b1])
  have ex1: "os_path_exists (base_dir w1 app_name) w1"
    using b1 d1 bd by (auto simp: exists_iff)
  have "handle app_name w1 =
      (Returned, w1\<lparr>stdout := stdout w1 @ [final_message app_name]\<rparr>)"
    using handle_phases [OF c1 ex1] rm cr
    by (simp add: bd and_then_def stdout_write_def)
  then show ?thesis using bd rm cr by (simp add: remove_default_files_def)
qed

text \<open>
  Claim C3. After a run that went through on an existing target, a second run finds
  no default file to remove (the removal is run again and does nothing), finds every
  path of the structure in place (no directory and no file is created, no
  \<^verbatim>\<open>Created\<close> message is written), and ends with the final success message alone:
  the file system is the one the first run left.
\<close>

theorem second_run_changes_nothing:
  assumes "files w (cwd w) = Some Dir" and "tree (files w)"
    and "os_path_exists (base_dir w app_name) w"
    and "handle app_name w = (Returned, w1)"
  shows "remove_default_files (base_dir w1 app_name) w1 = (Returned, w1) \<and>
         handle app_name w1 =
           (Returned,
            w1\<lparr>stdout := stdout w1 @
                  [(SUCCESS, ''Structure created for app '' @ quoted app_name)]\<rparr>)"
  using handle_again [OF assms] by (simp add: final_message_def)

section \<open>A run on an empty target\<close>

lemma world_eqI:
  fixes w w' :: world
  assumes "files w = files w'" "cwd w = cwd w'" "stdout w = stdout w'" "world.more w = world.more w'"
  shows "w = w'"
  using assms by (rule world.equality)

lemma create_each_fresh:
  assumes "parents_first S rels" "tree (files w)" "resolve w b = Inr B"
    and "\<forall>r\<in>S. files w (B @ r) = Some Dir \<and> (\<forall>n\<in>set r. plain n)"
    and "\<forall>rel\<in>set rels. files w (B @ rel) = None \<and> last rel \<noteq> ''__init__.py''"
    and "distinct rels"
  shows "create_each b rels w =
     (Returned,
      w\<lparr>files := (\<lambda>p. if p \<in> (\<lambda>rel. B @ rel) ` set rels then Some Dir
                      else if p \<in> (\<lambda>rel. B @ rel @ [''__init__.py'']) ` set rels
                      then Some (File [])
                      else files w p),
        stdout := stdout w @
          map (\<lambda>rel. (SUCCESS, ''Created '' @ os_path_join b rel)) rels\<rparr>)"
  using assms
proof (induction rels arbitrary: S w)
  case Nil
  show ?case by simp
next
  case (Cons rel rest)
  let ?pr = "butlast rel" and ?n = "last rel"
  let ?w1 = "created (B @ rel) (os_path_join b rel) w"
  from Cons.prems(1) have rel: "rel = ?pr @ [?n]" and pl: "\<forall>n\<in>set rel. plain n"
    and par: "?pr \<in> S" and rest: "parents_first (insert rel S) rest"
    by simp_all
  have pln: "plain ?n" and plp: "\<forall>n\<in>set ?pr. plain n"
    using pl rel by (metis last_in_set snoc_eq_iff_butlast, metis in_set_butlastD)
  have e: "files w (B @ ?pr) = Some Dir" using Cons.prems(4) par by auto
  have Brel: "B @ rel = B @ ?pr @ [?n]" using rel by simp
  have new: "files w (B @ rel) = None" using Cons.prems(5) by simp
  have "create_folder_with_init (os_path_join b rel) w = (Returned, ?w1)"
    using create_step [OF Cons.prems(2,3) plp pln e, folded Brel, folded rel] new by simp
  then have run: "create_each b (rel # rest) w = create_each b rest ?w1"
    by (simp add: and_then_def)
  have "files w ((B @ ?pr) @ [?n]) = None" using new Brel by simp
  then have "grows {(B @ ?pr) @ [?n]} w (created ((B @ ?pr) @ [?n]) (os_path_join b rel) w)"
    using Cons.prems(2) e by (intro grows_created)
  then have g1: "grows {B @ rel} w ?w1" using Brel by simp
  have t1: "tree (files ?w1)" using g1 by (simp add: grows_def)
  have r1: "resolve ?w1 b = Inr B" using g1 Cons.prems(3) by (rule grows_resolve)
  have k1: "files ?w1 (B @ rel) = Some Dir" by simp
  have k2: "files ?w1 (B @ r) = Some Dir" if "r \<in> S" for r
    using Cons.prems(4) that by (intro grows_keeps [OF g1]) simp
  have S1: "\<forall>r\<in>insert rel S. files ?w1 (B @ r) = Some Dir \<and> (\<forall>n\<in>set r. plain n)"
    using Cons.prems(4) pl k1 k2 by blast
  have fresh1: "\<forall>r\<in>set rest. files ?w1 (B @ r) = None \<and> last r \<noteq> ''__init__.py''"
  proof
    fix r assume r: "r \<in> set rest"
    then have "r \<noteq> rel" using Cons.prems(6) by auto
    moreover have "r \<noteq> rel @ [''__init__.py'']" using Cons.prems(5) r by auto
    ultimately show "files ?w1 (B @ r) = None \<and> last r \<noteq> ''__init__.py''"
      using Cons.prems(5) r by simp
  qed
  have ih: "create_each b rest ?w1 =
     (Returned,
      ?w1\<lparr>files := (\<lambda>p. if p \<in> (\<lambda>rel. B @ rel) ` set rest then Some Dir
                      else if p \<in> (\<lambda>rel. B @ rel @ [''__init__.py'']) ` set rest
                      then Some (File [])
                      else files ?w1 p),
        stdout := stdout ?w1 @
          map (\<lambda>rel. (SUCCESS, ''Created '' @ os_path_join b rel)) rest\<rparr>)"
  proof (rule Cons.IH [OF rest t1 r1 S1 fresh1])
    show "distinct rest" using Cons.prems(6) by simp
  qed
  have nin: "B @ rel \<notin> (\<lambda>r. B @ r @ [''__init__.py'']) ` set rest"
    using Cons.prems(5) by auto
  show ?case
    unfolding run ih
    by (intro conjI world_eqI ext arg_cong2 [of _ _ _ _ Pair] refl) (use nin in auto)
qed

text \<open>The tree of section 6 of the specification, in the order it is listed there.\<close>

definition layout :: "string list list" where
  "layout =
     [[''admin''],
      [''api''], [''api'', ''exceptions''], [''api'', ''filters''], [''api'', ''orderings''],
      [''api'', ''paginations''], [''api'', ''permissions''], [''api'', ''schema''],
      [''api'', ''routers''], [''api'', ''serializers''], [''api'', ''throttlings''],
      [''api'', ''views''],
      [''models''], [''models'', ''helper''], [''models'', ''helper'', ''enums''],
      [''repository''], [''repository'', ''manager''], [''repository'', ''queryset''],
      [''signals''],
      [''tests''], [''tests'', ''models''], [''tests'', ''api''], [''tests'', ''admin''],
      [''validators'']]"

lemma layout_attempts: "set all_attempts = set layout"
  by (auto simp: all_attempts_def attempt_order_def layout_def)

lemma distinct_attempts: "distinct all_attempts"
  by (simp add: all_attempts_def attempt_order_def)

lemma handle_fresh:
  assumes c: "files w (cwd w) = Some Dir" and t: "tree (files w)"
    and b: "resolve w (base_dir w app_name) = Inr B" and d: "files w B = Some Dir"
    and empty: "\<forall>p. p \<noteq> [] \<longrightarrow> files w (B @ p) = None"
  shows "handle app_name w =
    (Returned,
     w\<lparr>files := (\<lambda>p. if p \<in> (\<lambda>rel. B @ rel) ` set layout then Some Dir
                     else if p \<in> (\<lambda>rel. B @ rel @ [''__init__.py'']) ` set layout
                     then Some (File [])
                     else files w p),
       stdout := stdout w @
         map (\<lambda>rel. (SUCCESS, ''Created '' @ os_path_join (base_dir w app_name) rel))
           all_attempts @
         [(SUCCESS, ''Structure created for app '' @ quoted app_name)]\<rparr>)"
proof -
  let ?b = "base_dir w app_name"
  have ex: "os_path_exists ?b w" using b d by (auto simp: exists_iff)
  have "\<forall>d\<in>set default_files. plain d \<and> files w (B @ [d]) = None"
    using defaults_plain empty by simp
  then have rm: "remove_each ?b default_files w = (Returned, w)"
    by (rule remove_each_absent [OF b d])
  have S: "\<forall>r\<in>{[]}. files w (B @ r) = Some Dir \<and> (\<forall>n\<in>set r. plain n)"
    using d by simp
  have fresh: "\<forall>rel\<in>set all_attempts. files w (B @ rel) = None \<and> last rel \<noteq> ''__init__.py''"
    using attempts_shape empty by simp
  note cr = create_each_fresh [OF parents_first_attempts t b S fresh distinct_attempts]
  have "handle app_name w = stdout_write (final_message app_name)
      (w\<lparr>files := (\<lambda>p. if p \<in> (\<lambda>rel. B @ rel) ` set all_attempts then Some Dir
                     else if p \<in> (\<lambda>rel. B @ rel @ [''__init__.py'']) ` set all_attempts
                     then Some (File [])
                     else files w p),
       stdout := stdout w @
         map (\<lambda>rel. (SUCCESS, ''Created '' @ os_path_join ?b rel)) all_attempts\<rparr>)"
    unfolding handle_phases [OF c ex]
    by (simp only: and_then_def rm cr prod.case outcome.case)
  then show ?thesis
    unfolding layout_attempts [symmetric]
    by (simp add: stdout_write_def final_message_def)
qed

lemma tree_demo: "tree (files demo_world)"
  unfolding tree_def demo_world_def by (auto split: if_splits)

lemma base_demo:
  "resolve demo_world (base_dir demo_world ''myapp'') = Inr [''proj'', ''myapp'']"
  by (simp add: demo_world_def base_dir_def os_path_join_def join2_def
      resolve_def start_def walk.simps(2))

lemma empty_demo: "\<forall>p. p \<noteq> [] \<longrightarrow> files demo_world ([''proj'', ''myapp''] @ p) = None"
  by (auto simp: demo_world_def)

text \<open>
  Claim C1. When the target directory exists and is empty (so it holds no default
  file either), the run returns normally and the file system afterwards is the one
  before plus, below the target, exactly the 24 directories of the layout and one
  empty \<^verbatim>\<open>__init__.py\<close> in each of them: these 48 paths and nothing else are
  new, and nothing is removed. No removal message is written; there is one
  \<^verbatim>\<open>Created\<close> message for each directory, in the order of the attempts, and then
  the final success message.
\<close>

theorem empty_target_scaffold:
  assumes "files w (cwd w) = Some Dir" and "tree (files w)"
    and "resolve w (base_dir w app_name) = Inr B" and "files w B = Some Dir"
    and "\<forall>p. p \<noteq> [] \<longrightarrow> files w (B @ p) = None"
  shows "handle app_name w =
    (Returned,
     w\<lparr>files := (\<lambda>p. if p \<in> (\<lambda>rel. B @ rel) ` set layout then Some Dir
                     else if p \<in> (\<lambda>rel. B @ rel @ [''__init__.py'']) ` set layout
                     then Some (File [])
                     else files w p),
       stdout := stdout w @
         map (\<lambda>rel. (SUCCESS, ''Created '' @ os_path_join (base_dir w app_name) rel))
           all_attempts @
         [(SUCCESS, ''Structure created for app '' @ quoted app_name)]\<rparr>)"
  using assms by (rule handle_fresh)

theorem empty_target_scaffold_witness:
  "files demo_world (cwd demo_world) = Some Dir \<and> tree (files demo_world) \<and>
   resolve demo_world (base_dir demo_world ''myapp'') = Inr [''proj'', ''myapp''] \<and>
   files demo_world [''proj'', ''myapp''] = Some Dir \<and>
   length layout = 24 \<and> distinct layout \<and>
   handle ''myapp'' demo_world =
    (Returned,
     demo_world\<lparr>files :=
         (\<lambda>p. if p \<in> (\<lambda>rel. [''proj'', ''myapp''] @ rel) ` set layout then Some Dir
              else if p \<in> (\<lambda>rel. [''proj'', ''myapp''] @ rel @ [''__init__.py'']) ` set layout
              then Some (File [])
              else files demo_world p),
       stdout :=
         map (\<lambda>rel. (SUCCESS, ''Created '' @ os_path_join ''/proj/myapp'' rel)) all_attempts @
         [(SUCCESS, ''Structure created for app '' @ quoted ''myapp'')]\<rparr>)"
proof -
  have c: "files demo_world (cwd demo_world) = Some Dir" by (simp add: demo_world_def)
  have d: "files demo_world [''proj'', ''myapp''] = Some Dir" by (simp add: demo_world_def)
  have b: "base_dir demo_world ''myapp'' = ''/proj/myapp''"
    by (simp add: demo_world_def base_dir_def os_path_join_def join2_def)
  have o: "stdout demo_world = []" by (simp add: demo_world_def)
  have l: "length layout = 24" "distinct layout" by (simp_all add: layout_def)
  show ?thesis
    using empty_target_scaffold [OF c tree_demo base_demo d empty_demo] c tree_demo base_demo d l
    by (simp add: b o)
qed

definition demo_after :: world where
  "demo_after = snd (handle ''myapp'' demo_world)"

lemma demo_run: "handle ''myapp'' demo_world = (Returned, demo_after)"
proof -
  have c: "files demo_world (cwd demo_world) = Some Dir" by (simp add: demo_world_def)
  have d: "files demo_world [''proj'', ''myapp''] = Some Dir" by (simp add: demo_world_def)
  have "fst (handle ''myapp'' demo_world) = Returned"
    by (simp add: handle_fresh [OF c tree_demo base_demo d empty_demo])
  then show ?thesis by (simp add: demo_after_def prod_eq_iff)
qed

lemma demo_exists: "os_path_exists (base_dir demo_world ''myapp'') demo_world"
  using base_demo by (auto simp: exists_iff demo_world_def)

theorem second_run_changes_nothing_witness:
  "files demo_world (cwd demo_world) = Some Dir \<and> tree (files demo_world) \<and>
   os_path_exists (base_dir demo_world ''myapp'') demo_world \<and>
   handle ''myapp'' demo_world = (Returned, demo_after) \<and>
   remove_default_files (base_dir demo_after ''myapp'') demo_after = (Returned, demo_after) \<and>
   handle ''myapp'' demo_after =
     (Returned,
      demo_after\<lparr>stdout := stdout demo_after @
         [(SUCCESS, ''Structure created for app '' @ quoted ''myapp'')]\<rparr>)"
proof -
  have c: "files demo_world (cwd demo_world) = Some Dir" by (simp add: demo_world_def)
  show ?thesis
    using second_run_changes_nothing [OF c tree_demo demo_exists demo_run]
      c tree_demo demo_exists demo_run
    by simp
qed

text \<open>The target with a folder \<^verbatim>\<open>admin\<close> that has no marker file.\<close>

definition admin_world :: world where
  "admin_world =
     \<lparr>files = [[] \<mapsto> Dir, [''proj''] \<mapsto> Dir, [''proj'', ''myapp''] \<mapsto> Dir,
               [''proj'', ''myapp'', ''admin''] \<mapsto> Dir],
      cwd = [''proj''], stdout = []\<rparr>"

lemma tree_admin: "tree (files admin_world)"
  unfolding tree_def admin_world_def by (auto split: if_splits)

lemma admin_exists: "os_path_exists ''/proj/myapp/admin'' admin_world"
  by (simp add: os_path_exists_def lookup_def resolve_def start_def walk.simps(2)
      admin_world_def)

theorem existing_path_left_alone_witness:
  "os_path_exists ''/proj/myapp/admin'' admin_world \<and>
   create_folder_with_init ''/proj/myapp/admin'' admin_world = (Returned, admin_world) \<and>
   tree (files admin_world) \<and>
   files admin_world [''proj'', ''myapp'', ''admin''] = Some Dir \<and>
   files admin_world [''proj'', ''myapp'', ''admin'', ''__init__.py''] = None \<and>
   files (snd (handle ''myapp'' admin_world)) [''proj'', ''myapp'', ''admin''] = Some Dir \<and>
   files (snd (handle ''myapp'' admin_world)) [''proj'', ''myapp'', ''admin'', ''__init__.py'']
     = None"
proof -
  have a: "files admin_world [''proj'', ''myapp'', ''admin''] = Some Dir"
    "files admin_world ([''proj'', ''myapp'', ''admin''] @ [''__init__.py'']) = None"
    by (simp_all add: admin_world_def)
  have h: "handle ''myapp'' admin_world =
      (fst (handle ''myapp'' admin_world), snd (handle ''myapp'' admin_world))"
    by simp
  show ?thesis
    using existing_path_left_alone [of "''/proj/myapp/admin''" admin_world "''myapp''"
        "fst (handle ''myapp'' admin_world)" "snd (handle ''myapp'' admin_world)"
        "[''proj'', ''myapp'', ''admin'']"]
      admin_exists tree_admin a h
    by simp
qed

text \<open>The target as \<^verbatim>\<open>startapp\<close> leaves it.\<close>

definition startapp_world :: world where
  "startapp_world =
     \<lparr>files = [[] \<mapsto> Dir, [''proj''] \<mapsto> Dir, [''proj'', ''manage.py''] \<mapsto> File ''#!'',
               [''proj'', ''myapp''] \<mapsto> Dir,
               [''proj'', ''myapp'', ''__init__.py''] \<mapsto> File [],
               [''proj'', ''myapp'', ''apps.py''] \<mapsto> File ''class MyappConfig'',
               [''proj'', ''myapp'', ''models.py''] \<mapsto> File ''from django.db import models'',
               [''proj'', ''myapp'', ''admin.py''] \<mapsto> File ''from django.contrib import admin'',
               [''proj'', ''myapp'', ''tests.py''] \<mapsto> File ''from django.test import TestCase'',
               [''proj'', ''myapp'', ''views.py''] \<mapsto> File ''from django.shortcuts import render'',
               [''proj'', ''myapp'', ''migrations''] \<mapsto> Dir,
               [''proj'', ''myapp'', ''migrations'', ''__init__.py''] \<mapsto> File []],
      cwd = [''proj''], stdout = []\<rparr>"

lemma tree_startapp: "tree (files startapp_world)"
  unfolding tree_def startapp_world_def by (auto split: if_splits)

theorem only_default_files_deleted_witness:
  "tree (files startapp_world) \<and>
   files startapp_world [''proj'', ''myapp'', ''apps.py''] = Some (File ''class MyappConfig'') \<and>
   files (snd (handle ''myapp'' startapp_world)) [''proj'', ''myapp'', ''apps.py'']
     = Some (File ''class MyappConfig'')"
proof -
  have f: "files startapp_world [''proj'', ''myapp'', ''apps.py''] = Some (File ''class MyappConfig'')"
    by (simp add: startapp_world_def)
  have h: "handle ''myapp'' startapp_world =
      (fst (handle ''myapp'' startapp_world), snd (handle ''myapp'' startapp_world))"
    by simp
  have n: "[''proj'', ''myapp'', ''apps.py''] \<noteq> B @ [d]"
    if "d \<in> {''models.py'', ''admin.py'', ''tests.py'', ''views.py''}" for B d
    using that by auto
  show ?thesis
    using only_default_files_deleted [OF tree_startapp h f] tree_startapp f n
    by auto
qed

section \<open>The removal loop, exactly\<close>

lemma remove_each_exact:
  assumes "resolve w b = Inr B" "files w B = Some Dir"
    and "\<forall>d\<in>set ds. plain d \<and> files w (B @ [d]) \<noteq> Some Dir" "distinct ds"
  shows "remove_each b ds w =
     (Returned,
      w\<lparr>files := (\<lambda>p. if p \<in> (\<lambda>d. B @ [d]) ` set ds then None else files w p),
        stdout := stdout w @
          map (\<lambda>d. (WARNING, ''Removed '' @ os_path_join b [d]))
            (filter (\<lambda>d. files w (B @ [d]) \<noteq> None) ds)\<rparr>)"
  using assms
proof (induction ds arbitrary: w)
  case Nil
  show ?case by simp
next
  case (Cons d ds)
  have pd: "plain d" using Cons.prems(3) by simp
  note step = remove_step [OF Cons.prems(1,2) pd]
  show ?case
  proof (cases "files w (B @ [d])")
    case None
    then have run: "remove_each b (d # ds) w = remove_each b ds w"
      unfolding remove_each_Cons by (simp add: and_then_def step)
    have ih: "remove_each b ds w =
     (Returned,
      w\<lparr>files := (\<lambda>p. if p \<in> (\<lambda>d. B @ [d]) ` set ds then None else files w p),
        stdout := stdout w @
          map (\<lambda>d. (WARNING, ''Removed '' @ os_path_join b [d]))
            (filter (\<lambda>d. files w (B @ [d]) \<noteq> None) ds)\<rparr>)"
      using Cons.prems by (intro Cons.IH) simp_all
    show ?thesis
      unfolding run ih
      by (intro conjI world_eqI ext arg_cong2 [of _ _ _ _ Pair] refl) (use None in auto)
  next
    case (Some e)
    then obtain c where c: "files w (B @ [d]) = Some (File c)"
      using Cons.prems(3) by (cases e) auto
    let ?w1 = "removed (B @ [d]) (join2 b d) w"
    have run: "remove_each b (d # ds) w = remove_each b ds ?w1"
      unfolding remove_each_Cons using c by (simp add: and_then_def step)
    have s1: "shrinks {B @ [d]} w ?w1" using c by (rule shrinks_removed)
    have r1: "resolve ?w1 b = Inr B" using s1 Cons.prems(1) by (rule shrinks_resolve)
    have d1: "files ?w1 B = Some Dir" using Cons.prems(2) by simp
    have nd: "d \<notin> set ds" "distinct ds" using Cons.prems(4) by simp_all
    have same: "files ?w1 (B @ [x]) = files w (B @ [x])" if "x \<in> set ds" for x
      using that nd by auto
    have p1: "\<forall>x\<in>set ds. plain x \<and> files ?w1 (B @ [x]) \<noteq> Some Dir"
      using Cons.prems(3) same by simp
    have ih: "remove_each b ds ?w1 =
     (Returned,
      ?w1\<lparr>files := (\<lambda>p. if p \<in> (\<lambda>d. B @ [d]) ` set ds then None else files ?w1 p),
        stdout := stdout ?w1 @
          map (\<lambda>d. (WARNING, ''Removed '' @ os_path_join b [d]))
            (filter (\<lambda>d. files ?w1 (B @ [d]) \<noteq> None) ds)\<rparr>)"
      by (rule Cons.IH [OF r1 d1 p1 nd(2)])
    have flt: "filter (\<lambda>x. files ?w1 (B @ [x]) \<noteq> None) ds =
        filter (\<lambda>x. files w (B @ [x]) \<noteq> None) ds"
      using same by (intro filter_cong) simp_all
    show ?thesis
      unfolding run ih flt
      by (intro conjI world_eqI ext arg_cong2 [of _ _ _ _ Pair] refl)
         (use c in \<open>auto simp: os_path_join_def\<close>)
  qed
qed

text \<open>A target in which \<^verbatim>\<open>models.py\<close> is a directory.\<close>

definition dir_world :: world where
  "dir_world =
     \<lparr>files = [[] \<mapsto> Dir, [''proj''] \<mapsto> Dir, [''proj'', ''myapp''] \<mapsto> Dir,
               [''proj'', ''myapp'', ''models.py''] \<mapsto> Dir,
               [''proj'', ''myapp'', ''admin.py''] \<mapsto> File ''from django.contrib import admin''],
      cwd = [''proj''], stdout = []\<rparr>"

text \<open>A target with two default files and a \<^verbatim>\<open>views.py\<close> in a subfolder.\<close>

definition nested_world :: world where
  "nested_world =
     \<lparr>files = [[] \<mapsto> Dir, [''proj''] \<mapsto> Dir, [''proj'', ''myapp''] \<mapsto> Dir,
               [''proj'', ''myapp'', ''models.py''] \<mapsto> File ''from django.db import models'',
               [''proj'', ''myapp'', ''views.py''] \<mapsto> File ''from django.shortcuts import render'',
               [''proj'', ''myapp'', ''api''] \<mapsto> Dir,
               [''proj'', ''myapp'', ''api'', ''views.py''] \<mapsto> File ''class View''],
      cwd = [''proj''], stdout = []\<rparr>"

theorem remove_default_files_counterexample:
  "files dir_world [''proj'', ''myapp'', ''admin.py'']
     = Some (File ''from django.contrib import admin'') \<and>
   os_path_exists ''/proj/myapp/admin.py'' dir_world \<and>
   remove_default_files ''/proj/myapp'' dir_world = (Raised IsADirectoryError, dir_world)"
proof -
  have r: "resolve dir_world ''/proj/myapp'' = Inr [''proj'', ''myapp'']"
    by (simp add: resolve_def start_def walk.simps(2) dir_world_def)
  have d: "files dir_world [''proj'', ''myapp''] = Some Dir" by (simp add: dir_world_def)
  have m: "files dir_world ([''proj'', ''myapp''] @ [''models.py'']) = Some Dir"
    by (simp add: dir_world_def)
  have "remove_default_files ''/proj/myapp'' dir_world = (Raised IsADirectoryError, dir_world)"
    unfolding remove_default_files_def default_files_def remove_each_Cons
    using remove_step [OF r d, of "''models.py''"] m
    by (simp add: and_then_def)
  moreover have "os_path_exists ''/proj/myapp/admin.py'' dir_world"
    by (simp add: os_path_exists_def lookup_def resolve_def start_def walk.simps(2)
        dir_world_def)
  ultimately show ?thesis by (simp add: dir_world_def)
qed

text \<open>
  Claim C5, amended. \<^verbatim>\<open>remove_default_files\<close> goes through \<^verbatim>\<open>models.py\<close>,
  \<^verbatim>\<open>admin.py\<close>, \<^verbatim>\<open>tests.py\<close>, \<^verbatim>\<open>views.py\<close> in this order. Provided none of
  these names is a directory in the target, it returns normally; each of the four that
  exists directly in the target is deleted and gets one warning naming its path, in list
  order; one that is missing gets nothing; and every other path, a file of the same name
  in a subfolder included, is left as it is. (As the claim stands it fails when one of
  the names is a directory: \<^verbatim>\<open>os.remove\<close> raises and the names after it are never
  looked at.)
\<close>

theorem remove_default_files_effect:
  assumes "resolve w base = Inr B" and "files w B = Some Dir"
    and "\<forall>d\<in>{''models.py'', ''admin.py'', ''tests.py'', ''views.py''}.
           files w (B @ [d]) \<noteq> Some Dir"
  shows "remove_default_files base w =
     (Returned,
      w\<lparr>files :=
          (\<lambda>p. if p \<in> (\<lambda>d. B @ [d]) ` {''models.py'', ''admin.py'', ''tests.py'', ''views.py''}
                then None else files w p),
        stdout := stdout w @
          map (\<lambda>d. (WARNING, ''Removed '' @ os_path_join base [d]))
            (filter (\<lambda>d. files w (B @ [d]) \<noteq> None)
               [''models.py'', ''admin.py'', ''tests.py'', ''views.py''])\<rparr>)"
proof -
  have "\<forall>d\<in>set default_files. plain d \<and> files w (B @ [d]) \<noteq> Some Dir"
    using assms(3) by (simp add: default_files_def)
  moreover have "distinct default_files" by (simp add: default_files_def)
  ultimately show ?thesis
    unfolding remove_default_files_def
    using remove_each_exact [OF assms(1,2), of default_files]
    by (simp add: default_files_def)
qed

theorem remove_default_files_effect_witness:
  "resolve nested_world ''/proj/myapp'' = Inr [''proj'', ''myapp''] \<and>
   files nested_world [''proj'', ''myapp''] = Some Dir \<and>
   remove_default_files ''/proj/myapp'' nested_world =
     (Returned,
      nested_world\<lparr>files :=
          (\<lambda>p. if p \<in> (\<lambda>d. [''proj'', ''myapp''] @ [d]) `
                       {''models.py'', ''admin.py'', ''tests.py'', ''views.py''}
                then None else files nested_world p),
        stdout := [(WARNING, ''Removed /proj/myapp/models.py''),
                   (WARNING, ''Removed /proj/myapp/views.py'')]\<rparr>) \<and>
   files (snd (remove_default_files ''/proj/myapp'' nested_world))
     [''proj'', ''myapp'', ''api'', ''views.py''] = Some (File ''class View'') \<and>
   files (snd (remove_default_files ''/proj/myapp'' nested_world))
     [''proj'', ''myapp'', ''views.py''] = None"
proof -
  have r: "resolve nested_world ''/proj/myapp'' = Inr [''proj'', ''myapp'']"
    by (simp add: resolve_def start_def walk.simps(2) nested_world_def)
  have d: "files nested_world [''proj'', ''myapp''] = Some Dir" by (simp add: nested_world_def)
  have n: "\<forall>d\<in>{''models.py'', ''admin.py'', ''tests.py'', ''views.py''}.
           files nested_world ([''proj'', ''myapp''] @ [d]) \<noteq> Some Dir"
    by (simp add: nested_world_def)
  have f: "filter (\<lambda>d. files nested_world ([''proj'', ''myapp''] @ [d]) \<noteq> None)
               [''models.py'', ''admin.py'', ''tests.py'', ''views.py'']
           = [''models.py'', ''views.py'']"
    by (simp add: nested_world_def)
  have o: "stdout nested_world = []" by (simp add: nested_world_def)
  have v: "files nested_world [''proj'', ''myapp'', ''api'', ''views.py''] = Some (File ''class View'')"
    by (simp add: nested_world_def)
  note e = remove_default_files_effect [OF r d n, unfolded f]
  show ?thesis
    using r d v by (simp add: e o os_path_join_def join2_def)
qed

section \<open>Creating a folder with its missing parents\<close>

lemma os_path_join_plain:
  assumes "b \<noteq> []"
  shows "\<forall>n\<in>set ns. plain n \<Longrightarrow>
         os_path_join b ns \<noteq> [] \<and> (ns \<noteq> [] \<longrightarrow> last (os_path_join b ns) \<noteq> CHR ''/'')"
proof (induction ns rule: rev_induct)
  case Nil
  then show ?case using assms by (simp add: os_path_join_def)
next
  case (snoc n ns)
  then have "plain n" "os_path_join b ns \<noteq> []" by simp_all
  then show ?case
    using join2_plain_props(1,3) [of n "os_path_join b ns"] by (simp add: os_path_join_snoc)
qed

text \<open>Where a joined path resolves at all, it resolves below the base.\<close>

lemma resolve_join_target:
  assumes "resolve w b = Inr B"
  shows "\<forall>n\<in>set ns. plain n \<Longrightarrow> resolve w (os_path_join b ns) = Inr p \<Longrightarrow> p = B @ ns"
proof (induction ns arbitrary: p rule: rev_induct)
  case Nil
  then show ?case using assms by (simp add: os_path_join_def)
next
  case (snoc n ns)
  let ?s = "os_path_join b ns"
  have pn: "plain n" using snoc.prems(1) by simp
  have "b \<noteq> []" using assms by (auto simp: resolve_def)
  then have ne: "?s \<noteq> []" using os_path_join_plain [of b ns] snoc.prems(1) by simp
  from snoc.prems(2) obtain q where q: "resolve_dir w ?s = Inr q" "p = q @ [n]"
    using pn ne by (auto simp: os_path_join_snoc resolve_parent_join2 split: sum.splits)
  then have "resolve w ?s = Inr q"
    by (auto simp: resolve_dir_def directory_def split: sum.splits option.splits entry.splits)
  then have "q = B @ ns" using snoc by simp
  then show ?case using q by simp
qed

lemma not_exists_join:
  assumes "resolve w b = Inr B" "\<forall>n\<in>set ns. plain n" "files w (B @ ns) = None"
  shows "\<not> os_path_exists (os_path_join b ns) w"
  using resolve_join_target [OF assms(1,2)] assms(3) by (auto simp: exists_iff)

lemma tree_prefix: "tree fs \<Longrightarrow> fs (p @ q) \<noteq> None \<Longrightarrow> fs p \<noteq> None"
proof (induction q rule: rev_induct)
  case Nil
  then show ?case by simp
next
  case (snoc n q)
  then have "fs ((p @ q) @ [n]) \<noteq> None" by simp
  then have "fs (p @ q) = Some Dir" using snoc.prems(1) by (rule tree_parent [rotated])
  then show ?case using snoc by simp
qed

text \<open>The directories \<^verbatim>\<open>os.makedirs\<close> adds: the missing ones on the way to \<open>B @ ns\<close>.\<close>

definition with_parents :: "path \<Rightarrow> string list \<Rightarrow> filesystem \<Rightarrow> filesystem" where
  "with_parents B ns fs =
     (\<lambda>p. if (\<exists>k\<in>{1..length ns}. p = B @ take k ns) \<and> fs p = None then Some Dir else fs p)"

lemma with_parents_Nil [simp]: "with_parents B [] fs = fs"
  by (simp add: with_parents_def)

lemma with_parents_snoc:
  assumes "fs (B @ ms @ [n]) = None"
  shows "with_parents B (ms @ [n]) fs = (with_parents B ms fs)(B @ ms @ [n] \<mapsto> Dir)"
proof (rule ext)
  fix p
  have "(\<exists>k\<in>{1..length (ms @ [n])}. p = B @ take k (ms @ [n])) \<longleftrightarrow>
        (\<exists>k\<in>{1..length ms}. p = B @ take k ms) \<or> p = B @ ms @ [n]"
  proof
    assume "\<exists>k\<in>{1..length (ms @ [n])}. p = B @ take k (ms @ [n])"
    then obtain k where k: "1 \<le> k" "k \<le> Suc (length ms)" "p = B @ take k (ms @ [n])" by auto
    show "(\<exists>k\<in>{1..length ms}. p = B @ take k ms) \<or> p = B @ ms @ [n]"
    proof (cases "k \<le> length ms")
      case True
      then show ?thesis using k by auto
    next
      case False
      then have "k = Suc (length ms)" using k by simp
      then show ?thesis using k by simp
    qed
  next
    assume "(\<exists>k\<in>{1..length ms}. p = B @ take k ms) \<or> p = B @ ms @ [n]"
    then show "\<exists>k\<in>{1..length (ms @ [n])}. p = B @ take k (ms @ [n])"
    proof
      assume "\<exists>k\<in>{1..length ms}. p = B @ take k ms"
      then obtain k where "1 \<le> k" "k \<le> length ms" "p = B @ take k ms" by auto
      then show ?thesis by (intro bexI [of _ k]) auto
    next
      assume "p = B @ ms @ [n]"
      then show ?thesis by (intro bexI [of _ "Suc (length ms)"]) auto
    qed
  qed
  moreover have "B @ ms @ [n] \<noteq> B @ take k ms" for k
  proof
    assume "B @ ms @ [n] = B @ take k ms"
    then have "length (ms @ [n]) = length (take k ms)" by (metis same_append_eq)
    then show False by simp
  qed
  ultimately show "with_parents B (ms @ [n]) fs p = ((with_parents B ms fs)(B @ ms @ [n] \<mapsto> Dir)) p"
    using assms by (auto simp: with_parents_def)
qed

lemma with_parents_existing:
  assumes "tree fs" "fs (B @ ms) \<noteq> None"
  shows "with_parents B ms fs = fs"
proof (rule ext)
  fix p
  have "fs (B @ take k ms) \<noteq> None" for k
    using tree_prefix [OF assms(1), of "B @ take k ms" "drop k ms"] assms(2) by simp
  then show "with_parents B ms fs p = fs p" by (auto simp: with_parents_def)
qed

lemma with_parents_keeps: "fs p = Some e \<Longrightarrow> with_parents B ns fs p = Some e"
  by (simp add: with_parents_def)

lemma with_parents_elsewhere:
  "length p > length B + length ns \<Longrightarrow> with_parents B ns fs p = fs p"
  by (auto simp: with_parents_def)

lemma makedirs_chain:
  assumes t: "tree (files w)" and b: "resolve w base = Inr B" and d: "files w B = Some Dir"
  shows "ns \<noteq> [] \<Longrightarrow> \<forall>n\<in>set ns. plain n \<Longrightarrow> files w (B @ ns) = None \<Longrightarrow>
         \<forall>k<length ns. \<forall>c. files w (B @ take k ns) \<noteq> Some (File c) \<Longrightarrow>
         os_makedirs (os_path_join base ns) w =
           (Returned, w\<lparr>files := with_parents B ns (files w)\<rparr>) \<and>
         tree (with_parents B ns (files w))"
proof (induction ns rule: rev_induct)
  case Nil
  then show ?case by simp
next
  case (snoc n ms)
  let ?s = "os_path_join base ms"
  let ?name = "join2 ?s n"
  let ?w1 = "w\<lparr>files := with_parents B ms (files w)\<rparr>"
  have pn: "plain n" and pms: "\<forall>n\<in>set ms. plain n" using snoc.prems(2) by simp_all
  have bne: "base \<noteq> []" using b by (auto simp: resolve_def)
  have sne: "?s \<noteq> []" using os_path_join_plain [OF bne pms] by simp
  have new: "files w (B @ ms @ [n]) = None" using snoc.prems(3) by simp
  have wp: "with_parents B (ms @ [n]) (files w) = (with_parents B ms (files w))(B @ ms @ [n] \<mapsto> Dir)"
    using new by (rule with_parents_snoc)
  have new1: "with_parents B ms (files w) (B @ ms @ [n]) = None"
    using new by (simp add: with_parents_elsewhere)
  have split: "makedirs_split ?name = (head_of ?s, n)"
    using pn sne by (simp add: makedirs_split_def path_split_join2 plain_def)
  text \<open>Once the parent is a directory, in \<open>w\<close> or in the world the recursion leaves.\<close>
  have mk: "os_mkdir ?name v = (Returned, v\<lparr>files := (files v)(B @ ms @ [n] \<mapsto> Dir)\<rparr>)"
    if "tree (files v)" "resolve v base = Inr B" "files v (B @ ms) = Some Dir"
       "files v (B @ ms @ [n]) = None" for v
  proof -
    have "resolve v ?s = Inr (B @ ms)"
      using that pms by (intro resolve_path_join) simp_all
    then have "resolve_dir v ?s = Inr (B @ ms)" using that(3) by (rule resolve_dir_cases)
    then show ?thesis using pn sne that(4) by (simp add: mkdir_join2)
  qed
  show ?case
  proof (cases "files w (B @ ms) = None")
    case False
    have "\<forall>c. files w (B @ take (length ms) (ms @ [n])) \<noteq> Some (File c)"
      using snoc.prems(4) by (intro allI) (metis length_append_singleton lessI)
    then have dm: "files w (B @ ms) = Some Dir"
      using False by (cases "files w (B @ ms)") (auto intro: entry.exhaust)
    have same: "with_parents B ms (files w) = files w"
      using t False by (rule with_parents_existing)
    have "resolve w ?s = Inr (B @ ms)"
      using t b pms False by (intro resolve_path_join) simp_all
    then have ex: "os_path_exists ?s w" using dm by (auto simp: exists_iff)
    have "os_makedirs ?name w = os_mkdir ?name w" using pn ex by (rule makedirs_join2)
    also have "\<dots> = (Returned, w\<lparr>files := (files w)(B @ ms @ [n] \<mapsto> Dir)\<rparr>)"
      using t b dm new by (rule mk)
    finally have "os_makedirs (os_path_join base (ms @ [n])) w =
        (Returned, w\<lparr>files := (files w)(B @ ms @ [n] \<mapsto> Dir)\<rparr>)"
      by (simp only: os_path_join_snoc)
    moreover have "tree ((files w)((B @ ms) @ [n] \<mapsto> Dir))"
      using t dm new by (intro tree_add) simp_all
    then have "tree ((files w)(B @ ms @ [n] \<mapsto> Dir))" by (simp only: append_assoc)
    ultimately show ?thesis unfolding wp same by (rule conjI)
  next
    case True
    then have msne: "ms \<noteq> []" using d by auto
    then have "length ms \<in> {1..length ms}" by (cases ms) auto
    then have "\<exists>k\<in>{1..length ms}. B @ ms = B @ take k ms" by (intro bexI [of _ "length ms"]) simp
    then have dpar: "with_parents B ms (files w) (B @ ms) = Some Dir"
      using True unfolding with_parents_def by simp
    have "\<forall>k<length ms. \<forall>c. files w (B @ take k ms) \<noteq> Some (File c)"
    proof (intro allI impI)
      fix k c assume "k < length ms"
      then have "k < length (ms @ [n])" "take k (ms @ [n]) = take k ms" by simp_all
      then show "files w (B @ take k ms) \<noteq> Some (File c)" using snoc.prems(4) by metis
    qed
    then have ih: "os_makedirs ?s w = (Returned, ?w1)" and t1: "tree (with_parents B ms (files w))"
      using snoc.IH [OF msne pms True] by simp_all
    have nex: "\<not> os_path_exists ?s w" using b pms True by (rule not_exists_join)
    have hd: "head_of ?s = ?s"
      using os_path_join_plain [OF bne pms] msne by (intro head_of_noslash) simp_all
    have ndot: "n \<noteq> ''.''" "n \<noteq> []" using pn by (simp_all add: plain_def)
    have "os_makedirs ?name w = os_mkdir ?name ?w1"
      by (subst os_makedirs.simps) (simp add: split hd sne ndot nex ih)
    also have "\<dots> = (Returned, ?w1\<lparr>files := (files ?w1)(B @ ms @ [n] \<mapsto> Dir)\<rparr>)"
    proof (rule mk)
      show "tree (files ?w1)" using t1 by simp
      show "resolve ?w1 base = Inr B"
        by (rule resolve_keeps [OF _ _ b]) (simp_all add: with_parents_keeps)
      show "files ?w1 (B @ ms) = Some Dir" using dpar by simp
      show "files ?w1 (B @ ms @ [n]) = None" using new1 by simp
    qed
    finally have "os_makedirs (os_path_join base (ms @ [n])) w =
        (Returned, w\<lparr>files := (with_parents B ms (files w))(B @ ms @ [n] \<mapsto> Dir)\<rparr>)"
      by (simp add: os_path_join_snoc)
    moreover have "tree ((with_parents B ms (files w))((B @ ms) @ [n] \<mapsto> Dir))"
      using t1 dpar new1 by (intro tree_add) simp_all
    then have "tree ((with_parents B ms (files w))(B @ ms @ [n] \<mapsto> Dir))"
      by (simp only: append_assoc)
    ultimately show ?thesis unfolding wp by (rule conjI)
  qed
qed

lemma tree_child_none: "tree fs \<Longrightarrow> fs p = None \<Longrightarrow> fs (p @ [n]) = None"
  by (metis tree_parent option.distinct(1))

lemma create_folder_with_init_chain:
  assumes t: "tree (files w)" and b: "resolve w base = Inr B" and d: "files w B = Some Dir"
    and ne: "ns \<noteq> []" and pl: "\<forall>n\<in>set ns. plain n" and new: "files w (B @ ns) = None"
    and nf: "\<forall>k<length ns. \<forall>c. files w (B @ take k ns) \<noteq> Some (File c)"
  shows "create_folder_with_init (os_path_join base ns) w =
     (Returned,
      w\<lparr>files := (with_parents B ns (files w))(B @ ns @ [''__init__.py''] \<mapsto> File []),
        stdout := stdout w @ [(SUCCESS, ''Created '' @ os_path_join base ns)]\<rparr>)"
proof -
  let ?name = "os_path_join base ns"
  let ?w1 = "w\<lparr>files := with_parents B ns (files w)\<rparr>"
  let ?w2 = "?w1\<lparr>files := (files ?w1)((B @ ns) @ [''__init__.py''] \<mapsto> File [])\<rparr>"
  have nex: "\<not> os_path_exists ?name w" using b pl new by (rule not_exists_join)
  have m: "os_makedirs ?name w = (Returned, ?w1)" and t1: "tree (with_parents B ns (files w))"
    using makedirs_chain [OF t b d ne pl new nf] by simp_all
  have bne: "base \<noteq> []" using b by (auto simp: resolve_def)
  have nne: "?name \<noteq> []" using os_path_join_plain [OF bne pl] by simp
  have "length ns \<in> {1..length ns}" using ne by (cases ns) auto
  then have "\<exists>k\<in>{1..length ns}. B @ ns = B @ take k ns"
    by (intro bexI [of _ "length ns"]) simp
  then have leaf: "files ?w1 (B @ ns) = Some Dir"
    using new unfolding with_parents_def by simp
  have b1: "resolve ?w1 base = Inr B"
    by (rule resolve_keeps [OF _ _ b]) (simp_all add: with_parents_keeps)
  have "resolve ?w1 ?name = Inr (B @ ns)"
    using t1 b1 pl leaf by (intro resolve_path_join) simp_all
  then have rd: "resolve_dir ?w1 ?name = Inr (B @ ns)" using leaf by (rule resolve_dir_cases)
  have "files w ((B @ ns) @ [''__init__.py'']) = None"
    using t new by (rule tree_child_none)
  then have "files ?w1 ((B @ ns) @ [''__init__.py'']) = None"
    by (simp add: with_parents_elsewhere)
  then have o: "open_w (join2 ?name ''__init__.py'') ?w1 = (Returned, ?w2)"
    using nne by (simp add: open_w_join2 rd)
  have "create_folder_with_init ?name w =
      and_then (os_makedirs ?name)
        (and_then (open_w (join2 ?name ''__init__.py''))
           (stdout_write (SUCCESS, ''Created '' @ ?name))) w"
    using nex by (simp add: create_folder_with_init_def os_path_join_def)
  also have "\<dots> = and_then (open_w (join2 ?name ''__init__.py''))
           (stdout_write (SUCCESS, ''Created '' @ ?name)) ?w1"
    using m by (rule and_then_Returned)
  also have "\<dots> = stdout_write (SUCCESS, ''Created '' @ ?name) ?w2"
    using o by (rule and_then_Returned)
  finally show ?thesis by (simp add: stdout_write_def)
qed

theorem create_folder_with_init_counterexample:
  "\<not> os_path_exists ''/proj/myapp/admin'' file_world \<and>
   create_folder_with_init ''/proj/myapp/admin'' file_world
     = (Raised NotADirectoryError, file_world)"
proof -
  have r: "resolve file_world ''/proj/myapp'' = Inr [''proj'', ''myapp'']"
    by (simp add: resolve_def start_def walk.simps(2) file_world_def)
  have f: "files file_world [''proj'', ''myapp''] = Some (File ''x'')"
    by (simp add: file_world_def)
  have j: "join2 ''/proj/myapp'' ''admin'' = ''/proj/myapp/admin''"
    by (simp add: join2_def)
  have "\<not> os_path_exists ''/proj/myapp/admin'' file_world"
    by (simp add: os_path_exists_def lookup_def resolve_def start_def walk.simps(2)
        file_world_def)
  then show ?thesis
    using create_folder_with_init_under_file [OF _ r f, of "''admin''"] by (simp add: j)
qed

text \<open>
  Claim C7, amended. Let the path be an existing directory joined with one or more
  plain folder names, let the path not exist, and let no entry on the way to it be a
  regular file. Then \<^verbatim>\<open>create_folder_with_init\<close> returns normally; it creates the
  directory and every missing directory on the way to it; it creates one empty
  \<^verbatim>\<open>__init__.py\<close>, in the last directory only; it writes one success message with
  the path; and it changes nothing else. (As the claim stands it fails for a path below
  a regular file: the path does not exist, and \<^verbatim>\<open>os.makedirs\<close> raises.)
\<close>

theorem create_folder_with_init_new:
  assumes "tree (files w)" and "resolve w base = Inr B" and "files w B = Some Dir"
    and "ns \<noteq> []" and "\<forall>n\<in>set ns. plain n" and "files w (B @ ns) = None"
    and "\<forall>k<length ns. \<forall>c. files w (B @ take k ns) \<noteq> Some (File c)"
  shows "create_folder_with_init (os_path_join base ns) w =
     (Returned,
      w\<lparr>files :=
          (\<lambda>p. if p = B @ ns @ [''__init__.py''] then Some (File [])
                else if (\<exists>k\<in>{1..length ns}. p = B @ take k ns) \<and> files w p = None
                then Some Dir
                else files w p),
        stdout := stdout w @ [(SUCCESS, ''Created '' @ os_path_join base ns)]\<rparr>)"
proof -
  have "(with_parents B ns (files w))(B @ ns @ [''__init__.py''] \<mapsto> File []) =
      (\<lambda>p. if p = B @ ns @ [''__init__.py''] then Some (File [])
            else if (\<exists>k\<in>{1..length ns}. p = B @ take k ns) \<and> files w p = None
            then Some Dir
            else files w p)"
    by (rule ext) (simp add: with_parents_def)
  then show ?thesis using create_folder_with_init_chain [OF assms] by simp
qed

theorem create_folder_with_init_new_witness:
  "tree (files demo_world) \<and>
   resolve demo_world ''/proj/myapp'' = Inr [''proj'', ''myapp''] \<and>
   files demo_world [''proj'', ''myapp''] = Some Dir \<and>
   files demo_world [''proj'', ''myapp'', ''models''] = None \<and>
   os_path_join ''/proj/myapp'' [''models'', ''helper'', ''enums'']
     = ''/proj/myapp/models/helper/enums'' \<and>
   fst (create_folder_with_init ''/proj/myapp/models/helper/enums'' demo_world) = Returned \<and>
   map (files (snd (create_folder_with_init ''/proj/myapp/models/helper/enums'' demo_world)))
     [[''proj'', ''myapp'', ''models''],
      [''proj'', ''myapp'', ''models'', ''helper''],
      [''proj'', ''myapp'', ''models'', ''helper'', ''enums''],
      [''proj'', ''myapp'', ''models'', ''helper'', ''enums'', ''__init__.py''],
      [''proj'', ''myapp'', ''models'', ''helper'', ''__init__.py''],
      [''proj'', ''myapp'', ''models'', ''__init__.py'']]
     = [Some Dir, Some Dir, Some Dir, Some (File []), None, None] \<and>
   stdout (snd (create_folder_with_init ''/proj/myapp/models/helper/enums'' demo_world))
     = [(SUCCESS, ''Created /proj/myapp/models/helper/enums'')]"
proof -
  let ?ns = "[''models'', ''helper'', ''enums'']"
  have r: "resolve demo_world ''/proj/myapp'' = Inr [''proj'', ''myapp'']"
    by (simp add: resolve_def start_def walk.simps(2) demo_world_def)
  have d: "files demo_world [''proj'', ''myapp''] = Some Dir" by (simp add: demo_world_def)
  have ne: "?ns \<noteq> []" by simp
  have pl: "\<forall>n\<in>set ?ns. plain n" by simp
  have new: "files demo_world ([''proj'', ''myapp''] @ ?ns) = None" by (simp add: demo_world_def)
  have nf: "\<forall>k<length ?ns. \<forall>c. files demo_world ([''proj'', ''myapp''] @ take k ?ns) \<noteq> Some (File c)"
    by (simp add: demo_world_def All_less_Suc take_Suc_Cons)
  have j: "os_path_join ''/proj/myapp'' ?ns = ''/proj/myapp/models/helper/enums''"
    by (simp add: os_path_join_def join2_def)
  have m: "files demo_world [''proj'', ''myapp'', ''models''] = None" by (simp add: demo_world_def)
  have o: "stdout demo_world = []" by (simp add: demo_world_def)
  have k: "{1..length ?ns} = {1, 2, 3}" by auto
  note e = create_folder_with_init_new [OF tree_demo r d ne pl new nf, unfolded j k]
  have f: "files demo_world p = None" if "length p > 2" for p
    using that by (auto simp: demo_world_def)
  show ?thesis
    using tree_demo r d m j by (simp add: e o f)
qed

section \<open>An empty app name\<close>

lemma render_Cons: "render (x # xs) = CHR ''/'' # x @ (if xs = [] then [] else render xs)"
  by (cases xs) simp_all

lemma render_starts: "\<exists>t. render c = CHR ''/'' # t"
  by (cases c) (simp_all add: render_Cons)

lemma components_render:
  "c \<noteq> [] \<Longrightarrow> \<forall>n\<in>set c. CHR ''/'' \<notin> set n \<Longrightarrow> components (render c) = [] # c"
proof (induction c)
  case Nil
  then show ?case by simp
next
  case (Cons x xs)
  have x: "components x = [x]" using Cons.prems(2) by (simp add: components_nosep)
  show ?case
  proof (cases "xs = []")
    case True
    then show ?thesis using x by simp
  next
    case False
    obtain t where t: "render xs = CHR ''/'' # t" using render_starts by blast
    have "components (render xs) = [] # xs" using Cons False by simp
    then have "components t = xs" using t by simp
    then show ?thesis using False x t by (simp add: render_Cons components_sep)
  qed
qed

lemma last_render:
  "c \<noteq> [] \<Longrightarrow> \<forall>n\<in>set c. n \<noteq> [] \<Longrightarrow> last (render c) = last (last c)"
proof (induction c)
  case Nil
  then show ?case by simp
next
  case (Cons x xs)
  show ?case
  proof (cases "xs = []")
    case True
    then show ?thesis using Cons.prems by simp
  next
    case False
    obtain t where "render xs = CHR ''/'' # t" using render_starts by blast
    then have "render xs \<noteq> []" by simp
    then show ?thesis using False Cons by (simp add: render_Cons)
  qed
qed

lemma base_dir_empty:
  assumes "\<forall>n\<in>set (cwd w). plain n"
  shows "base_dir w [] = (if cwd w = [] then ''/'' else render (cwd w) @ ''/'')"
proof (cases "cwd w = []")
  case True
  then show ?thesis by (simp add: base_dir_def os_path_join_def join2_def)
next
  case False
  then have "plain (last (cwd w))" using assms by simp
  then have "last (last (cwd w)) \<noteq> CHR ''/''"
    unfolding plain_def by (metis last_in_set)
  moreover have "last (render (cwd w)) = last (last (cwd w))"
    using False assms by (intro last_render) (auto simp: plain_def)
  moreover obtain t where "render (cwd w) = CHR ''/'' # t" using render_starts by blast
  ultimately show ?thesis using False
    by (simp add: base_dir_def os_path_join_def join2_def)
qed

lemma components_base_dir_empty:
  assumes "\<forall>n\<in>set (cwd w). plain n"
  shows "components (base_dir w []) = [] # cwd w @ [[]]"
proof (cases "cwd w = []")
  case True
  then show ?thesis using assms by (simp add: base_dir_empty)
next
  case False
  have "components (render (cwd w)) = [] # cwd w"
    using False assms by (intro components_render) (auto simp: plain_def)
  then show ?thesis using False assms by (simp add: base_dir_empty components_sep)
qed

lemma tree_prefix_dir: "tree fs \<Longrightarrow> fs (p @ q) \<noteq> None \<Longrightarrow> q \<noteq> [] \<Longrightarrow> fs p = Some Dir"
proof (induction q rule: rev_induct)
  case Nil
  then show ?case by simp
next
  case (snoc n q)
  have d: "fs (p @ q) = Some Dir"
    using tree_parent [OF snoc.prems(1), of "p @ q" n] snoc.prems(2) by simp
  show ?case
  proof (cases "q = []")
    case True
    then show ?thesis using d by simp
  next
    case False
    then show ?thesis using snoc d by simp
  qed
qed

lemma walk_names:
  assumes "tree fs"
  shows "\<forall>n\<in>set c. plain n \<Longrightarrow> fs (p @ c) = Some Dir \<Longrightarrow>
         walk fs p (c @ rest) = walk fs (p @ c) rest"
proof (induction c arbitrary: p)
  case Nil
  show ?case by simp
next
  case (Cons n c)
  have d: "fs p = Some Dir"
    using tree_prefix_dir [OF assms, of p "n # c"] Cons.prems(2) by simp
  have n: "plain n" using Cons.prems(1) by simp
  have "walk fs p ((n # c) @ rest) = walk fs (p @ [n]) (c @ rest)"
    using d n by (simp add: walk.simps(2) plain_def)
  also have "\<dots> = walk fs ((p @ [n]) @ c) rest"
    using Cons.prems by (intro Cons.IH) simp_all
  finally show ?case by simp
qed

lemma resolve_base_dir_empty:
  assumes t: "tree (files w)" and c: "files w (cwd w) = Some Dir"
    and pl: "\<forall>n\<in>set (cwd w). plain n"
  shows "resolve w (base_dir w []) = Inr (cwd w)"
proof -
  have r: "files w [] = Some Dir"
    using tree_prefix_dir [OF t, of "[]" "cwd w"] c by (cases "cwd w = []") simp_all
  obtain u where "render (cwd w) = CHR ''/'' # u" using render_starts by blast
  then have s: "hd (base_dir w []) = CHR ''/''" "base_dir w [] \<noteq> []"
    using pl by (simp_all add: base_dir_empty)
  have "resolve w (base_dir w []) = walk (files w) [] ([] # cwd w @ [[]])"
    using components_base_dir_empty [OF pl] s by (simp add: resolve_def start_def)
  also have "\<dots> = walk (files w) [] (cwd w @ [[]])"
    using r by (simp add: walk.simps(2))
  also have "\<dots> = walk (files w) ([] @ cwd w) [[]]"
    using pl c by (intro walk_names [OF t]) simp_all
  also have "\<dots> = Inr (cwd w)"
    using c by (simp add: walk_empty_component directory_def)
  finally show ?thesis .
qed

text \<open>
  A run on a target in which none of the four default names is a directory and no
  folder of the layout is there yet: the whole result.
\<close>

lemma handle_clean:
  assumes c: "files w (cwd w) = Some Dir" and t: "tree (files w)"
    and b: "resolve w (base_dir w app_name) = Inr B" and d: "files w B = Some Dir"
    and nd: "\<forall>d\<in>set default_files. files w (B @ [d]) \<noteq> Some Dir"
    and free: "\<forall>rel\<in>set layout. files w (B @ rel) = None"
  shows "handle app_name w =
    (Returned,
     w\<lparr>files := (\<lambda>p. if p \<in> (\<lambda>rel. B @ rel) ` set layout then Some Dir
                     else if p \<in> (\<lambda>rel. B @ rel @ [''__init__.py'']) ` set layout
                     then Some (File [])
                     else if p \<in> (\<lambda>d. B @ [d]) ` set default_files then None
                     else files w p),
       stdout := stdout w @
         map (\<lambda>d. (WARNING, ''Removed '' @ os_path_join (base_dir w app_name) [d]))
           (filter (\<lambda>d. files w (B @ [d]) \<noteq> None) default_files) @
         map (\<lambda>rel. (SUCCESS, ''Created '' @ os_path_join (base_dir w app_name) rel))
           all_attempts @
         [(SUCCESS, ''Structure created for app '' @ quoted app_name)]\<rparr>)"
proof -
  let ?b = "base_dir w app_name"
  define w1 where "w1 =
      w\<lparr>files := (\<lambda>p. if p \<in> (\<lambda>d. B @ [d]) ` set default_files then None else files w p),
        stdout := stdout w @
          map (\<lambda>d. (WARNING, ''Removed '' @ os_path_join ?b [d]))
            (filter (\<lambda>d. files w (B @ [d]) \<noteq> None) default_files)\<rparr>"
  have ex: "os_path_exists ?b w" using b d by (auto simp: exists_iff)
  have dd: "distinct default_files" by (simp add: default_files_def)
  have "\<forall>d\<in>set default_files. plain d \<and> files w (B @ [d]) \<noteq> Some Dir"
    using defaults_plain nd by simp
  then have rm: "remove_each ?b default_files w = (Returned, w1)"
    unfolding w1_def using dd by (intro remove_each_exact [OF b d])
  have s: "shrinks ((\<lambda>d. B @ [d]) ` set default_files) w w1"
    using remove_each_shrinks [OF b d defaults_plain rm] by simp
  have t1: "tree (files w1)" using s t by (simp add: shrinks_def)
  have b1: "resolve w1 ?b = Inr B" using s b by (rule shrinks_resolve)
  have d1: "files w1 B = Some Dir" using s d by (rule shrinks_dirs)
  have S: "\<forall>r\<in>{[]}. files w1 (B @ r) = Some Dir \<and> (\<forall>n\<in>set r. plain n)"
    using d1 by simp
  have "files w1 (B @ rel) = None" if "rel \<in> set all_attempts" for rel
  proof -
    have "files w (B @ rel) = None" using that free layout_attempts by auto
    with s show ?thesis by (rule shrinks_none)
  qed
  then have fresh: "\<forall>rel\<in>set all_attempts. files w1 (B @ rel) = None \<and> last rel \<noteq> ''__init__.py''"
    using attempts_shape by simp
  note cr = create_each_fresh [OF parents_first_attempts t1 b1 S fresh distinct_attempts]
  have h: "handle app_name w = stdout_write (final_message app_name)
      (w1\<lparr>files := (\<lambda>p. if p \<in> (\<lambda>rel. B @ rel) ` set all_attempts then Some Dir
                     else if p \<in> (\<lambda>rel. B @ rel @ [''__init__.py'']) ` set all_attempts
                     then Some (File [])
                     else files w1 p),
       stdout := stdout w1 @
         map (\<lambda>rel. (SUCCESS, ''Created '' @ os_path_join ?b rel)) all_attempts\<rparr>)"
    unfolding handle_phases [OF c ex]
    by (simp only: and_then_def rm cr prod.case outcome.case)
  show ?thesis
    unfolding h layout_attempts [symmetric]
    by (simp add: stdout_write_def final_message_def w1_def cong: if_cong)
qed

text \<open>
  The creations never raise when no path they attempt is a regular file: a parent
  is then a directory by the time its subfolder is attempted.
\<close>

lemma create_each_returns:
  assumes "parents_first S rels" "tree (files w)" "resolve w b = Inr B"
    and "\<forall>r\<in>S. files w (B @ r) = Some Dir \<and> (\<forall>n\<in>set r. plain n)"
    and "\<forall>rel\<in>set rels. (\<forall>c. files w (B @ rel) \<noteq> Some (File c)) \<and> last rel \<noteq> ''__init__.py''"
  shows "fst (create_each b rels w) = Returned"
  using assms
proof (induction rels arbitrary: S w)
  case Nil
  show ?case by simp
next
  case (Cons rel rest)
  let ?pr = "butlast rel" and ?n = "last rel"
  from Cons.prems(1) have rel: "rel = ?pr @ [?n]" and pl: "\<forall>n\<in>set rel. plain n"
    and par: "?pr \<in> S" and rest: "parents_first (insert rel S) rest"
    by simp_all
  have pln: "plain ?n" and plp: "\<forall>n\<in>set ?pr. plain n"
    using pl rel by (metis last_in_set snoc_eq_iff_butlast, metis in_set_butlastD)
  have d: "files w (B @ ?pr) = Some Dir" using Cons.prems(4) par by simp
  have Brel: "B @ rel = B @ ?pr @ [?n]" using rel by simp
  note step = create_step [OF Cons.prems(2,3) plp pln d, folded Brel, folded rel]
  show ?case
  proof (cases "files w (B @ rel) = None")
    case False
    then obtain e where e: "files w (B @ rel) = Some e" by auto
    have "e = Dir" using Cons.prems(5) e by (cases e) simp_all
    then have here: "files w (B @ rel) = Some Dir" using e by simp
    have run: "create_each b (rel # rest) w = create_each b rest w"
      using step False by (simp add: and_then_def)
    have S': "\<forall>r\<in>insert rel S. files w (B @ r) = Some Dir \<and> (\<forall>n\<in>set r. plain n)"
      using Cons.prems(4) here pl by simp
    have nf: "\<forall>rel\<in>set rest. (\<forall>c. files w (B @ rel) \<noteq> Some (File c)) \<and> last rel \<noteq> ''__init__.py''"
      using Cons.prems(5) by simp
    show ?thesis
      unfolding run by (rule Cons.IH [OF rest Cons.prems(2,3) S' nf])
  next
    case True
    let ?w1 = "created (B @ rel) (os_path_join b rel) w"
    have run: "create_each b (rel # rest) w = create_each b rest ?w1"
      using step True by (simp add: and_then_def)
    have "files w ((B @ ?pr) @ [?n]) = None" using True Brel by simp
    then have "grows {(B @ ?pr) @ [?n]} w
        (created ((B @ ?pr) @ [?n]) (os_path_join b rel) w)"
      using Cons.prems(2) d by (intro grows_created)
    then have g1: "grows {B @ rel} w ?w1" using Brel by simp
    have t1: "tree (files ?w1)" using g1 by (simp add: grows_def)
    have r1: "resolve ?w1 b = Inr B" using g1 Cons.prems(3) by (rule grows_resolve)
    have S': "\<forall>r\<in>insert rel S. files ?w1 (B @ r) = Some Dir \<and> (\<forall>n\<in>set r. plain n)"
    proof
      fix r assume r: "r \<in> insert rel S"
      show "files ?w1 (B @ r) = Some Dir \<and> (\<forall>n\<in>set r. plain n)"
      proof (cases "r = rel")
        case True
        then show ?thesis using pl by simp
      next
        case False
        then have old: "files w (B @ r) = Some Dir" and plr: "\<forall>n\<in>set r. plain n"
          using r Cons.prems(4) by simp_all
        have "files ?w1 (B @ r) = Some Dir" using g1 old by (rule grows_keeps)
        then show ?thesis using plr by (rule conjI)
      qed
    qed
    have nf: "\<forall>x\<in>set rest. (\<forall>c. files ?w1 (B @ x) \<noteq> Some (File c)) \<and> last x \<noteq> ''__init__.py''"
    proof
      fix x assume x: "x \<in> set rest"
      then have old: "\<forall>c. files w (B @ x) \<noteq> Some (File c)" and l: "last x \<noteq> ''__init__.py''"
        using Cons.prems(5) by simp_all
      have "x \<noteq> rel @ [''__init__.py'']" using l by auto
      then have "B @ x \<noteq> (B @ rel) @ [''__init__.py'']" by simp
      then have "\<forall>c. files ?w1 (B @ x) \<noteq> Some (File c)" using old by simp
      then show "(\<forall>c. files ?w1 (B @ x) \<noteq> Some (File c)) \<and> last x \<noteq> ''__init__.py''"
        using l by simp
    qed
    show ?thesis
      unfolding run by (rule Cons.IH [OF rest t1 r1 S' nf])
  qed
qed

text \<open>What a run that returns leaves in the target.\<close>

lemma handle_returned:
  assumes c: "files w (cwd w) = Some Dir" and t: "tree (files w)"
    and b: "resolve w (base_dir w app_name) = Inr B" and d: "files w B = Some Dir"
    and ret: "fst (handle app_name w) = Returned"
  shows "(\<forall>d\<in>set default_files. files (snd (handle app_name w)) (B @ [d]) = None) \<and>
         (\<forall>rel\<in>set layout. files (snd (handle app_name w)) (B @ rel) \<noteq> None)"
proof -
  have run: "handle app_name w = (Returned, snd (handle app_name w))"
    using ret by (simp add: prod_eq_iff)
  from handle_effect [OF c t b d run]
  obtain w1 w2 where g: "grows ((\<lambda>rel. B @ rel) ` set all_attempts) w1 w2"
    and f: "files (snd (handle app_name w)) = files w2"
    and r: "Returned = Returned \<longrightarrow>
        (\<forall>d\<in>set default_files. files w1 (B @ [d]) = None) \<and>
        (\<forall>rel\<in>set all_attempts. files w2 (B @ rel) \<noteq> None) \<and>
        stdout (snd (handle app_name w)) = stdout w2 @ [final_message app_name]"
    by blast
  have r1: "\<forall>d\<in>set default_files. files w1 (B @ [d]) = None"
    and r2: "\<forall>rel\<in>set all_attempts. files w2 (B @ rel) \<noteq> None"
    using r by simp_all
  have "files w2 (B @ [x]) = None" if "x \<in> set default_files" for x
  proof (rule default_not_grown [OF g that])
    show "files w1 (B @ [x]) = None" using r1 that by blast
  qed
  moreover have "\<forall>rel\<in>set layout. files w2 (B @ rel) \<noteq> None"
    using r2 unfolding layout_attempts .
  ultimately show ?thesis unfolding f by simp
qed

text \<open>
  A run returns when none of the four default names is a directory in the target and
  no path of the layout is a regular file; every folder of the layout is then a
  directory.
\<close>

lemma handle_returns:
  assumes c: "files w (cwd w) = Some Dir" and t: "tree (files w)"
    and b: "resolve w (base_dir w app_name) = Inr B" and d: "files w B = Some Dir"
    and nd: "\<forall>d\<in>set default_files. files w (B @ [d]) \<noteq> Some Dir"
    and nf: "\<forall>rel\<in>set layout. \<forall>c. files w (B @ rel) \<noteq> Some (File c)"
  shows "fst (handle app_name w) = Returned \<and>
         (\<forall>rel\<in>set layout. files (snd (handle app_name w)) (B @ rel) = Some Dir)"
proof -
  let ?b = "base_dir w app_name"
  let ?N = "(\<lambda>rel. B @ rel) ` set all_attempts"
  have ex: "os_path_exists ?b w" using b d by (auto simp: exists_iff)
  have pd: "\<forall>d\<in>set default_files. plain d \<and> files w (B @ [d]) \<noteq> Some Dir"
    using defaults_plain nd by simp
  have dd: "distinct default_files" by (simp add: default_files_def)
  define w1 where "w1 = snd (remove_each ?b default_files w)"
  have rm: "remove_each ?b default_files w = (Returned, w1)"
    unfolding w1_def by (simp add: remove_each_exact [OF b d pd dd])
  have s: "shrinks ((\<lambda>d. B @ [d]) ` set default_files) w w1"
    using remove_each_shrinks [OF b d defaults_plain rm] by simp
  have t1: "tree (files w1)" using s t by (simp add: shrinks_def)
  have b1: "resolve w1 ?b = Inr B" using s b by (rule shrinks_resolve)
  have d1: "files w1 B = Some Dir" using s d by (rule shrinks_dirs)
  have S: "\<forall>r\<in>{[]}. files w1 (B @ r) = Some Dir \<and> (\<forall>n\<in>set r. plain n)"
    using d1 by simp
  have nf1: "files w1 (B @ rel) \<noteq> Some (File x)" if "rel \<in> set all_attempts" for rel x
  proof -
    have "rel \<in> set layout" using that unfolding layout_attempts .
    then have nofile: "\<forall>c. files w (B @ rel) \<noteq> Some (File c)" using nf by blast
    show ?thesis
    proof (cases "files w (B @ rel)")
      case None
      with s have "files w1 (B @ rel) = None" by (rule shrinks_none)
      then show ?thesis by simp
    next
      case (Some e)
      then have "e = Dir" using nofile by (cases e) simp_all
      then have "files w (B @ rel) = Some Dir" using Some by simp
      with s have "files w1 (B @ rel) = Some Dir" by (rule shrinks_dirs)
      then show ?thesis by simp
    qed
  qed
  then have nf': "\<forall>rel\<in>set all_attempts.
      (\<forall>c. files w1 (B @ rel) \<noteq> Some (File c)) \<and> last rel \<noteq> ''__init__.py''"
    using attempts_shape by simp
  have cr: "fst (create_each ?b all_attempts w1) = Returned"
    by (rule create_each_returns [OF parents_first_attempts t1 b1 S nf'])
  obtain w2 where cr2: "create_each ?b all_attempts w1 = (Returned, w2)"
    using cr by (cases "create_each ?b all_attempts w1") simp
  have h: "handle app_name w = (Returned, w2\<lparr>stdout := stdout w2 @ [final_message app_name]\<rparr>)"
    unfolding handle_phases [OF c ex]
    by (simp only: and_then_def rm cr2 prod.case outcome.case stdout_write_def)
  have S0: "\<forall>r\<in>{[]}. files w1 (B @ r) \<noteq> None \<and> (\<forall>n\<in>set r. plain n)"
    using d1 by simp
  have g: "grows ?N w1 w2" and there: "\<forall>rel\<in>set all_attempts. files w2 (B @ rel) \<noteq> None"
    using create_each_grows [OF parents_first_attempts t1 b1 S0 cr2] by simp_all
  have "files w2 (B @ rel) = Some Dir" if rel: "rel \<in> set all_attempts" for rel
  proof -
    have ne: "files w2 (B @ rel) \<noteq> None" using there rel by simp
    have l: "last rel \<noteq> ''__init__.py''" "rel \<noteq> []" using attempts_shape rel by simp_all
    then have nm: "B @ rel \<noteq> q @ [''__init__.py'']" for q
      by (metis append_is_Nil_conv last_appendR last_snoc)
    show ?thesis
    proof (cases "files w1 (B @ rel)")
      case (Some e)
      then have "e = Dir" using nf1 [OF rel] by (cases e) simp_all
      then have "files w1 (B @ rel) = Some Dir" using Some by simp
      with g show ?thesis by (rule grows_keeps)
    next
      case None
      then have "files w2 (B @ rel) \<noteq> files w1 (B @ rel)" using ne by simp
      then consider "files w2 (B @ rel) = Some Dir"
        | q where "B @ rel = q @ [''__init__.py'']"
        using g unfolding grows_def by metis
      then show ?thesis
      proof cases
        case 1
        then show ?thesis .
      next
        case 2
        then show ?thesis using nm by simp
      qed
    qed
  qed
  then have "\<forall>rel\<in>set layout. files w2 (B @ rel) = Some Dir"
    unfolding layout_attempts [symmetric] by blast
  then show ?thesis unfolding h by simp
qed

text \<open>A project directory that itself holds default files, as the working directory.\<close>

definition root_world :: world where
  "root_world =
     \<lparr>files = [[] \<mapsto> Dir, [''proj''] \<mapsto> Dir, [''proj'', ''manage.py''] \<mapsto> File ''#!'',
               [''proj'', ''models.py''] \<mapsto> File ''from django.db import models'',
               [''proj'', ''views.py''] \<mapsto> File ''from django.shortcuts import render''],
      cwd = [''proj''], stdout = []\<rparr>"

lemma tree_root: "tree (files root_world)"
  unfolding tree_def root_world_def by (auto split: if_splits)

text \<open>A working directory in which \<^verbatim>\<open>models.py\<close> is a directory.\<close>

definition rootdir_world :: world where
  "rootdir_world =
     \<lparr>files = [[] \<mapsto> Dir, [''proj''] \<mapsto> Dir, [''proj'', ''models.py''] \<mapsto> Dir,
               [''proj'', ''admin.py''] \<mapsto> File ''from django.contrib import admin''],
      cwd = [''proj''], stdout = []\<rparr>"

lemma tree_rootdir: "tree (files rootdir_world)"
  unfolding tree_def rootdir_world_def by (auto split: if_splits)

text \<open>
  With the empty app name in that working directory the run gets past the existence
  check and stops at the first removal: \<^verbatim>\<open>admin.py\<close> stays and nothing is created.
\<close>

theorem empty_app_name_counterexample:
  "tree (files rootdir_world) \<and>
   files rootdir_world (cwd rootdir_world) = Some Dir \<and>
   cwd rootdir_world = [''proj''] \<and> plain ''proj'' \<and>
   base_dir rootdir_world [] = ''/proj/'' \<and>
   os_path_exists ''/proj/'' rootdir_world \<and>
   files rootdir_world [''proj'', ''admin.py'']
     = Some (File ''from django.contrib import admin'') \<and>
   handle [] rootdir_world = (Raised IsADirectoryError, rootdir_world)"
proof -
  have c: "files rootdir_world (cwd rootdir_world) = Some Dir" by (simp add: rootdir_world_def)
  have w: "cwd rootdir_world = [''proj'']" by (simp add: rootdir_world_def)
  have bd: "base_dir rootdir_world [] = ''/proj/''"
    by (simp add: base_dir_def os_path_join_def join2_def w)
  have r: "resolve rootdir_world ''/proj/'' = Inr [''proj'']"
    by (simp add: resolve_def start_def walk.simps(2) rootdir_world_def)
  have d: "files rootdir_world [''proj''] = Some Dir" by (simp add: rootdir_world_def)
  have ex: "os_path_exists ''/proj/'' rootdir_world"
    using r d by (simp add: exists_iff)
  have m: "files rootdir_world ([''proj''] @ [''models.py'']) = Some Dir"
    by (simp add: rootdir_world_def)
  have a: "files rootdir_world [''proj'', ''admin.py'']
      = Some (File ''from django.contrib import admin'')"
    by (simp add: rootdir_world_def)
  have rm: "remove_each ''/proj/'' default_files rootdir_world
      = (Raised IsADirectoryError, rootdir_world)"
    unfolding default_files_def remove_each_Cons
    using remove_step [OF r d, of "''models.py''"] m
    by (simp add: and_then_def)
  have "handle [] rootdir_world = (Raised IsADirectoryError, rootdir_world)"
    using handle_phases [OF c, of "[]"] ex unfolding bd
    by (simp add: and_then_def rm)
  then show ?thesis using tree_rootdir c w bd ex a by (simp add: plain_def)
qed

text \<open>
  Claim C10, amended. With the empty string as app name, in a well-formed file system
  whose working directory exists: \<^verbatim>\<open>base_dir\<close> resolves to the working directory
  itself; the existence check passes, so the run is the removal of the default files
  followed by the creations, all on paths below the working directory, and not the
  error message; a run that returns leaves none of \<^verbatim>\<open>models.py\<close>,
  \<^verbatim>\<open>admin.py\<close>, \<^verbatim>\<open>tests.py\<close>, \<^verbatim>\<open>views.py\<close> directly in the working
  directory and every path of the layout present below it. Provided none of the four
  names is a directory directly in the working directory, those that are there are
  deleted, each with its warning. Provided moreover no path of the layout below the
  working directory is a regular file, the run returns and every folder of the layout
  is a directory there afterwards; and when no folder of the layout is there yet, the
  result is the whole layout with its marker files, created directly in the working
  directory. (As the claim stands it fails when one of the four names is a directory:
  \<^verbatim>\<open>os.remove\<close> raises, the default files after it stay and nothing is created.)
\<close>

theorem empty_app_name:
  assumes "tree (files w)" and "files w (cwd w) = Some Dir" and "\<forall>n\<in>set (cwd w). plain n"
  shows "resolve w (base_dir w []) = Inr (cwd w) \<and>
     os_path_exists (base_dir w []) w \<and>
     handle [] w =
       and_then (remove_default_files (base_dir w []))
         (and_then (create_each (base_dir w []) all_attempts)
            (stdout_write (SUCCESS, ''Structure created for app '' @ quoted []))) w \<and>
     (fst (handle [] w) = Returned \<longrightarrow>
        (\<forall>d\<in>set default_files. files (snd (handle [] w)) (cwd w @ [d]) = None) \<and>
        (\<forall>rel\<in>set layout. files (snd (handle [] w)) (cwd w @ rel) \<noteq> None)) \<and>
     ((\<forall>d\<in>set default_files. files w (cwd w @ [d]) \<noteq> Some Dir) \<longrightarrow>
        remove_default_files (base_dir w []) w =
          (Returned,
           w\<lparr>files := (\<lambda>p. if p \<in> (\<lambda>d. cwd w @ [d]) ` set default_files then None
                           else files w p),
             stdout := stdout w @
               map (\<lambda>d. (WARNING, ''Removed '' @ os_path_join (base_dir w []) [d]))
                 (filter (\<lambda>d. files w (cwd w @ [d]) \<noteq> None) default_files)\<rparr>)) \<and>
     ((\<forall>d\<in>set default_files. files w (cwd w @ [d]) \<noteq> Some Dir) \<and>
      (\<forall>rel\<in>set layout. \<forall>c. files w (cwd w @ rel) \<noteq> Some (File c)) \<longrightarrow>
        fst (handle [] w) = Returned \<and>
        (\<forall>rel\<in>set layout. files (snd (handle [] w)) (cwd w @ rel) = Some Dir)) \<and>
     ((\<forall>d\<in>set default_files. files w (cwd w @ [d]) \<noteq> Some Dir) \<and>
      (\<forall>rel\<in>set layout. files w (cwd w @ rel) = None) \<longrightarrow>
        handle [] w =
          (Returned,
           w\<lparr>files := (\<lambda>p. if p \<in> (\<lambda>rel. cwd w @ rel) ` set layout then Some Dir
                           else if p \<in> (\<lambda>rel. cwd w @ rel @ [''__init__.py'']) ` set layout
                           then Some (File [])
                           else if p \<in> (\<lambda>d. cwd w @ [d]) ` set default_files then None
                           else files w p),
             stdout := stdout w @
               map (\<lambda>d. (WARNING, ''Removed '' @ os_path_join (base_dir w []) [d]))
                 (filter (\<lambda>d. files w (cwd w @ [d]) \<noteq> None) default_files) @
               map (\<lambda>rel. (SUCCESS, ''Created '' @ os_path_join (base_dir w []) rel))
                 all_attempts @
               [(SUCCESS, ''Structure created for app '' @ quoted [])]\<rparr>))"
proof -
  note t = assms(1) and c = assms(2) and pl = assms(3)
  have b: "resolve w (base_dir w []) = Inr (cwd w)"
    using t c pl by (rule resolve_base_dir_empty)
  have ex: "os_path_exists (base_dir w []) w" using b c by (auto simp: exists_iff)
  have ph: "handle [] w =
       and_then (remove_default_files (base_dir w []))
         (and_then (create_each (base_dir w []) all_attempts)
            (stdout_write (SUCCESS, ''Structure created for app '' @ quoted []))) w"
    using handle_phases [OF c ex]
    by (simp add: remove_default_files_def [abs_def] final_message_def)
  have ret: "(\<forall>d\<in>set default_files. files (snd (handle [] w)) (cwd w @ [d]) = None) \<and>
        (\<forall>rel\<in>set layout. files (snd (handle [] w)) (cwd w @ rel) \<noteq> None)"
    if "fst (handle [] w) = Returned"
    using c t b c that by (rule handle_returned)
  have rm: "remove_default_files (base_dir w []) w =
          (Returned,
           w\<lparr>files := (\<lambda>p. if p \<in> (\<lambda>d. cwd w @ [d]) ` set default_files then None
                           else files w p),
             stdout := stdout w @
               map (\<lambda>d. (WARNING, ''Removed '' @ os_path_join (base_dir w []) [d]))
                 (filter (\<lambda>d. files w (cwd w @ [d]) \<noteq> None) default_files)\<rparr>)"
    if nd: "\<forall>d\<in>set default_files. files w (cwd w @ [d]) \<noteq> Some Dir"
  proof -
    have pd: "\<forall>d\<in>set default_files. plain d \<and> files w (cwd w @ [d]) \<noteq> Some Dir"
      using defaults_plain nd by simp
    have dd: "distinct default_files" by (simp add: default_files_def)
    show ?thesis
      unfolding remove_default_files_def by (rule remove_each_exact [OF b c pd dd])
  qed
  have rets: "fst (handle [] w) = Returned \<and>
        (\<forall>rel\<in>set layout. files (snd (handle [] w)) (cwd w @ rel) = Some Dir)"
    if "\<forall>d\<in>set default_files. files w (cwd w @ [d]) \<noteq> Some Dir"
      and "\<forall>rel\<in>set layout. \<forall>c. files w (cwd w @ rel) \<noteq> Some (File c)"
    using c t b c that by (rule handle_returns)
  have run: "handle [] w =
          (Returned,
           w\<lparr>files := (\<lambda>p. if p \<in> (\<lambda>rel. cwd w @ rel) ` set layout then Some Dir
                           else if p \<in> (\<lambda>rel. cwd w @ rel @ [''__init__.py'']) ` set layout
                           then Some (File [])
                           else if p \<in> (\<lambda>d. cwd w @ [d]) ` set default_files then None
                           else files w p),
             stdout := stdout w @
               map (\<lambda>d. (WARNING, ''Removed '' @ os_path_join (base_dir w []) [d]))
                 (filter (\<lambda>d. files w (cwd w @ [d]) \<noteq> None) default_files) @
               map (\<lambda>rel. (SUCCESS, ''Created '' @ os_path_join (base_dir w []) rel))
                 all_attempts @
               [(SUCCESS, ''Structure created for app '' @ quoted [])]\<rparr>)"
    if "\<forall>d\<in>set default_files. files w (cwd w @ [d]) \<noteq> Some Dir"
      and "\<forall>rel\<in>set layout. files w (cwd w @ rel) = None"
    using c t b c that by (rule handle_clean)
  show ?thesis
  proof (intro conjI impI)
    show "resolve w (base_dir w []) = Inr (cwd w)" by (rule b)
    show "os_path_exists (base_dir w []) w" by (rule ex)
    show "handle [] w =
       and_then (remove_default_files (base_dir w []))
         (and_then (create_each (base_dir w []) all_attempts)
            (stdout_write (SUCCESS, ''Structure created for app '' @ quoted []))) w"
      by (rule ph)
    show "\<forall>d\<in>set default_files. files (snd (handle [] w)) (cwd w @ [d]) = None"
      if "fst (handle [] w) = Returned"
      using ret [OF that] by (rule conjunct1)
    show "\<forall>rel\<in>set layout. files (snd (handle [] w)) (cwd w @ rel) \<noteq> None"
      if "fst (handle [] w) = Returned"
      using ret [OF that] by (rule conjunct2)
    show "remove_default_files (base_dir w []) w =
          (Returned,
           w\<lparr>files := (\<lambda>p. if p \<in> (\<lambda>d. cwd w @ [d]) ` set default_files then None
                           else files w p),
             stdout := stdout w @
               map (\<lambda>d. (WARNING, ''Removed '' @ os_path_join (base_dir w []) [d]))
                 (filter (\<lambda>d. files w (cwd w @ [d]) \<noteq> None) default_files)\<rparr>)"
      if "\<forall>d\<in>set default_files. files w (cwd w @ [d]) \<noteq> Some Dir"
      using that by (rule rm)
    show "fst (handle [] w) = Returned"
      if "(\<forall>d\<in>set default_files. files w (cwd w @ [d]) \<noteq> Some Dir) \<and>
        (\<forall>rel\<in>set layout. \<forall>c. files w (cwd w @ rel) \<noteq> Some (File c))"
      using rets [OF that [THEN conjunct1] that [THEN conjunct2]] by (rule conjunct1)
    show "\<forall>rel\<in>set layout. files (snd (handle [] w)) (cwd w @ rel) = Some Dir"
      if "(\<forall>d\<in>set default_files. files w (cwd w @ [d]) \<noteq> Some Dir) \<and>
        (\<forall>rel\<in>set layout. \<forall>c. files w (cwd w @ rel) \<noteq> Some (File c))"
      using rets [OF that [THEN conjunct1] that [THEN conjunct2]] by (rule conjunct2)
    show "handle [] w =
          (Returned,
           w\<lparr>files := (\<lambda>p. if p \<in> (\<lambda>rel. cwd w @ rel) ` set layout then Some Dir
                           else if p \<in> (\<lambda>rel. cwd w @ rel @ [''__init__.py'']) ` set layout
                           then Some (File [])
                           else if p \<in> (\<lambda>d. cwd w @ [d]) ` set default_files then None
                           else files w p),
             stdout := stdout w @
               map (\<lambda>d. (WARNING, ''Removed '' @ os_path_join (base_dir w []) [d]))
                 (filter (\<lambda>d. files w (cwd w @ [d]) \<noteq> None) default_files) @
               map (\<lambda>rel. (SUCCESS, ''Created '' @ os_path_join (base_dir w []) rel))
                 all_attempts @
               [(SUCCESS, ''Structure created for app '' @ quoted [])]\<rparr>)"
      if "(\<forall>d\<in>set default_files. files w (cwd w @ [d]) \<noteq> Some Dir) \<and>
        (\<forall>rel\<in>set layout. files w (cwd w @ rel) = None)"
      using run [OF that [THEN conjunct1] that [THEN conjunct2]] .
  qed
qed

theorem empty_app_name_witness:
  "tree (files root_world) \<and> files root_world (cwd root_world) = Some Dir \<and>
   cwd root_world = [''proj''] \<and> plain ''proj'' \<and>
   base_dir root_world [] = ''/proj/'' \<and>
   resolve root_world ''/proj/'' = Inr [''proj''] \<and>
   os_path_exists ''/proj/'' root_world \<and>
   fst (handle [] root_world) = Returned \<and>
   map (files (snd (handle [] root_world)))
     [[''proj'', ''models.py''], [''proj'', ''views.py''], [''proj'', ''manage.py''],
      [''proj'', ''admin''], [''proj'', ''admin'', ''__init__.py''],
      [''proj'', ''models'', ''helper'', ''enums'']]
     = [None, None, Some (File ''#!''), Some Dir, Some (File []), Some Dir] \<and>
   take 3 (stdout (snd (handle [] root_world)))
     = [(WARNING, ''Removed /proj/models.py''), (WARNING, ''Removed /proj/views.py''),
        (SUCCESS, ''Created /proj/admin'')] \<and>
   last (stdout (snd (handle [] root_world)))
     = (SUCCESS, ''Structure created for app '' @ quoted [])"
proof -
  have c: "files root_world (cwd root_world) = Some Dir" by (simp add: root_world_def)
  have w: "cwd root_world = [''proj'']" by (simp add: root_world_def)
  have pl: "\<forall>n\<in>set (cwd root_world). plain n" by (simp add: w plain_def)
  have bd: "base_dir root_world [] = ''/proj/''"
    by (simp add: base_dir_def os_path_join_def join2_def w)
  have nd: "\<forall>d\<in>set default_files. files root_world ([''proj''] @ [d]) \<noteq> Some Dir"
    by (simp add: default_files_def root_world_def)
  have free: "\<forall>rel\<in>set layout. files root_world ([''proj''] @ rel) = None"
    by (simp add: layout_def root_world_def)
  have o: "stdout root_world = []" by (simp add: root_world_def)
  have f: "filter (\<lambda>d. files root_world ([''proj''] @ [d]) \<noteq> None) default_files
      = [''models.py'', ''views.py'']"
    by (simp add: default_files_def root_world_def)
  have m: "files root_world [''proj'', ''manage.py''] = Some (File ''#!'')"
    by (simp add: root_world_def)
  note e = empty_app_name [OF tree_root c pl, unfolded bd w]
  have r: "resolve root_world ''/proj/'' = Inr [''proj'']"
    using e by (rule conjunct1)
  have x: "os_path_exists ''/proj/'' root_world"
    using e [THEN conjunct2] by (rule conjunct1)
  note e7 = e [THEN conjunct2, THEN conjunct2, THEN conjunct2, THEN conjunct2,
      THEN conjunct2, THEN conjunct2]
  have h: "handle [] root_world =
          (Returned,
           root_world\<lparr>files := (\<lambda>p. if p \<in> (\<lambda>rel. [''proj''] @ rel) ` set layout then Some Dir
                           else if p \<in> (\<lambda>rel. [''proj''] @ rel @ [''__init__.py'']) ` set layout
                           then Some (File [])
                           else if p \<in> (\<lambda>d. [''proj''] @ [d]) ` set default_files then None
                           else files root_world p),
             stdout := stdout root_world @
               map (\<lambda>d. (WARNING, ''Removed '' @ os_path_join ''/proj/'' [d]))
                 (filter (\<lambda>d. files root_world ([''proj''] @ [d]) \<noteq> None) default_files) @
               map (\<lambda>rel. (SUCCESS, ''Created '' @ os_path_join ''/proj/'' rel))
                 all_attempts @
               [(SUCCESS, ''Structure created for app '' @ quoted [])]\<rparr>)"
    using nd free by (intro e7 [THEN mp] conjI)
  obtain rest where a: "all_attempts = [''admin''] # rest"
    by (simp add: all_attempts_def attempt_order_def)
  have st: "take 3 (stdout (snd (handle [] root_world)))
     = [(WARNING, ''Removed /proj/models.py''), (WARNING, ''Removed /proj/views.py''),
        (SUCCESS, ''Created /proj/admin'')]"
    unfolding h f a by (simp add: o os_path_join_def join2_def)
  have la: "last (stdout (snd (handle [] root_world)))
     = (SUCCESS, ''Structure created for app '' @ quoted [])"
    unfolding h by simp
  have fs: "map (files (snd (handle [] root_world)))
     [[''proj'', ''models.py''], [''proj'', ''views.py''], [''proj'', ''manage.py''],
      [''proj'', ''admin''], [''proj'', ''admin'', ''__init__.py''],
      [''proj'', ''models'', ''helper'', ''enums'']]
     = [None, None, Some (File ''#!''), Some Dir, Some (File []), Some Dir]"
    unfolding h by (simp add: layout_def default_files_def m)
  show ?thesis
    using tree_root c w bd r x st la fs by (simp add: h plain_def)
qed

end
